theory Spec2Isabelle
  imports Main "HOL-Library.Word"
begin

section \<open>Data model of the sitemap fetcher\<close>

text \<open>
  Go strings are byte sequences; they are modelled as \<open>string\<close> (a list of 8-bit
  characters). A response body is a list of bytes followed by the way the stream ends:
  a clean end of file (\<open>None\<close>) or a read error.
\<close>

type_synonym byte = "8 word"

datatype ctx_error = Canceled | DeadlineExceeded

text \<open>
  Errors produced outside this package (transport, XML tokenizer, gzip, the caller's
  callback). \<open>ExtCtx c\<close> is an external error for which \<open>errors.Is\<close> finds the
  context error \<open>c\<close> (a read that failed because a deadline fired, for instance).
\<close>

datatype ext_error = ExtOther string | ExtCtx ctx_error

type_synonym stream = "byte list \<times> ext_error option"

text \<open>\<open>time.Duration\<close>: signed 64-bit nanoseconds, kept as an integer in range.\<close>

type_synonym duration = int

text \<open>An instant, in nanoseconds since the epoch; a parsed float64, as its bit pattern.\<close>

type_synonym gotime = int
type_synonym float64 = "64 word"

text \<open>\<open>url.URL\<close> with the fields of the standard library's struct.\<close>

record url =
  Scheme :: string
  Opaque :: string
  User :: "string option"
  Host :: string
  Path :: string
  RawPath :: string
  OmitHost :: bool
  ForceQuery :: bool
  RawQuery :: string
  Fragment :: string
  RawFragment :: string

definition zero_url :: url where
  "zero_url = \<lparr>Scheme = [], Opaque = [], User = None, Host = [], Path = [], RawPath = [],
     OmitHost = False, ForceQuery = False, RawQuery = [], Fragment = [], RawFragment = []\<rparr>"

text \<open>The typed errors of \<open>errors.go\<close>, context errors and external errors.\<close>

datatype error =
    ErrNilYield
  | ErrInvalidURL string string
  | ErrNoSitemaps url
  | ErrHTTPStatus url int string
  | ErrSitemapParse url error
  | ErrMaxDepth int url
  | ErrMaxSitemaps int
  | ErrMaxURLs int
  | ErrYield ext_error
  | CtxErr ctx_error
  | ExtErr ext_error
  | ErrEmptyLoc

text \<open>A compiled regular expression is represented by its \<open>MatchString\<close> method.\<close>

type_synonym regexp = "string \<Rightarrow> bool"

record opts =
  MaxDepth :: int
  MaxSitemaps :: int
  MaxURLs :: int
  AllowNon200 :: bool
  IgnoreRobots :: bool
  UserAgent :: string
  PerRequestTimeout :: duration
  Include :: "regexp option list"
  Exclude :: "regexp option list"

record item =
  Loc :: url
  LastMod :: "gotime option"
  ChangeFreq :: string
  Priority :: "float64 option"
  Sitemap :: "url option"

record sitemapTask =
  loc :: url
  depth :: int
  allowMissing :: bool

text \<open>A robots.txt rule group is represented by its \<open>Test\<close> method on a path.\<close>

type_synonym robots_group = "string \<Rightarrow> bool"

record robotsRules =
  group :: "robots_group option"
  sitemaps :: "url list"

record robotsData =
  FindGroup :: "string \<Rightarrow> robots_group option"
  Sitemaps :: "string list"

record xmlURLEntry =
  entryLoc :: string
  entryLastMod :: string
  entryChangeFreq :: string
  entryPriority :: string

record xmlSitemapEntry =
  smLoc :: string
  smLastMod :: string

record request =
  req_url :: string
  req_user_agent :: string
  req_timeout :: "duration option"

record response =
  StatusCode :: int
  Status :: string
  HeaderGet :: "string \<Rightarrow> string"
  Body :: stream

text \<open>
  What the decoding loop of \<open>parseSitemap\<close> meets in a document: a token that is not a
  start element named \<open>url\<close> or \<open>sitemap\<close>, or such an element together with the
  result of \<open>DecodeElement\<close> on it.
\<close>

datatype xml_step =
    OtherToken
  | URLElem "ext_error + xmlURLEntry"
  | SitemapElem "ext_error + xmlSitemapEntry"

text \<open>
  The environment of one traversal: the library functions the package calls (net/url,
  time, strconv, net/http, robotstxt, compress/gzip, encoding/xml) and the outside
  world, read through a clock that advances at every interaction: the context's
  \<open>Err()\<close>, the HTTP client, the wall clock and the interruptible sleep.
\<close>

record env =
  url_Parse :: "string \<Rightarrow> ext_error + url"
  ResolveReference :: "url \<Rightarrow> url \<Rightarrow> url"
  url_String :: "url \<Rightarrow> string"
  EscapedPath :: "url \<Rightarrow> string"
  time_Parse :: "string \<Rightarrow> string \<Rightarrow> gotime option"
  ParseFloat :: "string \<Rightarrow> float64 option"
  http_ParseTime :: "string \<Rightarrow> gotime option"
  NewRequest :: "string \<Rightarrow> ext_error option"
  robots_FromResponse :: "response \<Rightarrow> ext_error + robotsData"
  gzip_NewReader :: "stream \<Rightarrow> ext_error + stream"
  xml_tokens :: "stream \<Rightarrow> xml_step list \<times> ext_error option"
  ctx_Err :: "nat \<Rightarrow> ctx_error option"
  client_Do :: "nat \<Rightarrow> request \<Rightarrow> ext_error + response"
  time_Now :: "nat \<Rightarrow> gotime"
  sleep_interrupted :: "nat \<Rightarrow> duration \<Rightarrow> ctx_error option"

text \<open>The caller's callback: its answer may depend on the items it was given before.\<close>

type_synonym yield_fn = "item list \<Rightarrow> item \<Rightarrow> ext_error option"

text \<open>
  The state of one \<open>Walk\<close> call: its local variables (\<open>queue\<close>, \<open>seen\<close>, the two
  counters, the robots cache), the clock of the environment, and logs of what the call
  did: HTTP requests issued, locations handed to \<open>fetchSitemap\<close>, sleeps, and the
  items the callback was invoked with.
\<close>

record wstate =
  clock :: nat
  cache :: "string \<rightharpoonup> robotsRules"
  requests :: "request list"
  fetched :: "url list"
  sleeps :: "duration list"
  yields :: "item list"
  queue :: "sitemapTask list"
  seen :: "string set"
  sitemapCount :: int
  urlCount :: int

definition init_state :: wstate where
  "init_state = \<lparr>clock = 0, cache = Map.empty, requests = [], fetched = [], sleeps = [],
     yields = [], queue = [], seen = {}, sitemapCount = 0, urlCount = 0\<rparr>"

definition tick :: "wstate \<Rightarrow> wstate" where
  "tick s = s\<lparr>clock := Suc (clock s)\<rparr>"

section \<open>Constants\<close>

definition defaultUserAgent :: string where
  "defaultUserAgent = ''Mozilla/5.0 (Macintosh; Intel Mac OS X 26_0) AppleWebKit/537.36 (KHTML, like Gecko) Chrome/133.0.0.0 Safari/537.36''"

definition maxRetryAttempts :: nat where
  "maxRetryAttempts = 3"

definition time_Second :: duration where
  "time_Second = 1000000000"

definition defaultRetryDelay :: duration where
  "defaultRetryDelay = 5 * time_Second"

definition maxRetryDelay :: duration where
  "maxRetryDelay = 30 * time_Second"

section \<open>String helpers of the standard library\<close>

text \<open>
  \<open>strings.TrimSpace\<close> removes leading and trailing white space as Unicode defines
  it: the six ASCII characters and the UTF-8 encodings of U+0085, U+00A0, U+1680,
  U+2000 to U+200A, U+2028, U+2029, U+202F, U+205F and U+3000.
\<close>

definition space_runes :: "string list" where
  "space_runes =
     [[CHR 0x09], [CHR 0x0A], [CHR 0x0B], [CHR 0x0C], [CHR 0x0D], [CHR 0x20],
      [CHR 0xC2, CHR 0x85], [CHR 0xC2, CHR 0xA0], [CHR 0xE1, CHR 0x9A, CHR 0x80],
      [CHR 0xE2, CHR 0x80, CHR 0x80], [CHR 0xE2, CHR 0x80, CHR 0x81],
      [CHR 0xE2, CHR 0x80, CHR 0x82], [CHR 0xE2, CHR 0x80, CHR 0x83],
      [CHR 0xE2, CHR 0x80, CHR 0x84], [CHR 0xE2, CHR 0x80, CHR 0x85],
      [CHR 0xE2, CHR 0x80, CHR 0x86], [CHR 0xE2, CHR 0x80, CHR 0x87],
      [CHR 0xE2, CHR 0x80, CHR 0x88], [CHR 0xE2, CHR 0x80, CHR 0x89],
      [CHR 0xE2, CHR 0x80, CHR 0x8A], [CHR 0xE2, CHR 0x80, CHR 0xA8],
      [CHR 0xE2, CHR 0x80, CHR 0xA9], [CHR 0xE2, CHR 0x80, CHR 0xAF],
      [CHR 0xE2, CHR 0x81, CHR 0x9F], [CHR 0xE3, CHR 0x80, CHR 0x80]]"

fun strip_runes :: "string list \<Rightarrow> string \<Rightarrow> string" where
  "strip_runes rs [] = []"
| "strip_runes rs (c # cs) =
     (case find (\<lambda>r. r \<noteq> [] \<and> take (length r) (c # cs) = r) rs of
        None \<Rightarrow> c # cs
      | Some r \<Rightarrow> strip_runes rs (drop (length r - 1) cs))"

definition TrimSpace :: "string \<Rightarrow> string" where
  "TrimSpace s = rev (strip_runes (map rev space_runes) (rev (strip_runes space_runes s)))"

text \<open>
  \<open>strings.ToLower\<close> on the ASCII letters. Go also lower-cases letters outside ASCII;
  none of them becomes one of the characters of \<open>.xml\<close> or \<open>.xml.gz\<close>, the only
  use made of the result.
\<close>

definition lower_char :: "char \<Rightarrow> char" where
  "lower_char c =
     (if 65 \<le> (of_char c :: nat) \<and> (of_char c :: nat) \<le> 90
      then char_of ((of_char c :: nat) + 32) else c)"

definition ToLower :: "string \<Rightarrow> string" where
  "ToLower s = map lower_char s"

definition HasSuffix :: "string \<Rightarrow> string \<Rightarrow> bool" where
  "HasSuffix s suffix =
     (length suffix \<le> length s \<and> drop (length s - length suffix) s = suffix)"

text \<open>
  \<open>strconv.Atoi\<close> on a 64-bit platform: an optional sign, at least one decimal digit,
  nothing else, and a value that fits a signed 64-bit integer.
\<close>

definition is_digit :: "char \<Rightarrow> bool" where
  "is_digit c = (48 \<le> (of_char c :: nat) \<and> (of_char c :: nat) \<le> 57)"

definition digits_val :: "string \<Rightarrow> int" where
  "digits_val ds = foldl (\<lambda>acc c. 10 * acc + ((of_char c :: int) - 48)) 0 ds"

definition Atoi :: "string \<Rightarrow> int option" where
  "Atoi s =
     (let neg = (take 1 s = ''-'');
          ds = (if take 1 s = ''-'' \<or> take 1 s = ''+'' then drop 1 s else s)
      in if ds = [] \<or> \<not> list_all is_digit ds then None
         else let v = (if neg then - digits_val ds else digits_val ds)
              in if v < - (2 ^ 63) \<or> 2 ^ 63 - 1 < v then None else Some v)"

text \<open>Multiplication of two durations wraps around at 64 bits, as Go's does.\<close>

definition mul_duration :: "duration \<Rightarrow> duration \<Rightarrow> duration" where
  "mul_duration a b = signed_take_bit 63 (a * b)"

text \<open>\<open>time.Until t\<close> is \<open>t.Sub(now)\<close>, which saturates at the ends of the range.\<close>

definition time_Until :: "gotime \<Rightarrow> gotime \<Rightarrow> duration" where
  "time_Until t now = max (- (2 ^ 63)) (min (2 ^ 63 - 1) (t - now))"

text \<open>\<open>u.IsAbs()\<close>.\<close>

definition IsAbs :: "url \<Rightarrow> bool" where
  "IsAbs u = (Scheme u \<noteq> [])"

section \<open>Construction and input normalisation\<close>

text \<open>
  \<open>New\<close>: the HTTP client and the logger are the environment's; the one default that
  shows in the options is the user agent.
\<close>

definition New :: "opts \<Rightarrow> opts" where
  "New cfg = (if UserAgent cfg = [] then cfg\<lparr>UserAgent := defaultUserAgent\<rparr> else cfg)"

definition normalizeInputURL :: "env \<Rightarrow> url option \<Rightarrow> error + (url \<times> url)" where
  "normalizeInputURL E website =
     (case website of
        None \<Rightarrow> Inl (ErrInvalidURL [] ''nil URL'')
      | Some w \<Rightarrow>
          let input = (if Scheme w = [] then w\<lparr>Scheme := ''https''\<rparr> else w)
          in if Host input = [] then Inl (ErrInvalidURL (url_String E w) ''missing host'')
             else Inr (input\<lparr>Fragment := []\<rparr>,
                       zero_url\<lparr>Scheme := Scheme input, Host := Host input\<rparr>))"

definition cloneURL :: "url option \<Rightarrow> url option" where
  "cloneURL u = (case u of None \<Rightarrow> None | Some c \<Rightarrow> Some c)"

definition canonicalURLKey :: "env \<Rightarrow> url option \<Rightarrow> string" where
  "canonicalURLKey E u =
     (case u of None \<Rightarrow> [] | Some c \<Rightarrow> url_String E (c\<lparr>Fragment := []\<rparr>))"

section \<open>Sitemap discovery\<close>

definition isLikelySitemapURL :: "url option \<Rightarrow> bool" where
  "isLikelySitemapURL u =
     (case u of
        None \<Rightarrow> False
      | Some v \<Rightarrow>
          let path = ToLower (Path v)
          in HasSuffix path ''.xml'' \<or> HasSuffix path ''.xml.gz'')"

definition defaultSitemaps :: "env \<Rightarrow> url \<Rightarrow> url list" where
  "defaultSitemaps E base =
     (let candidates =
        [''/sitemap.xml'', ''/sitemap_index.xml'', ''/sitemap-index.xml'',
         ''/sitemap.xml.gz'', ''/sitemap_index.xml.gz'', ''/sitemap-index.xml.gz'']
      in map (\<lambda>path. ResolveReference E base (zero_url\<lparr>Path := path\<rparr>)) candidates)"

definition initialSitemaps ::
  "env \<Rightarrow> url \<Rightarrow> url \<Rightarrow> robotsRules option \<Rightarrow> sitemapTask list" where
  "initialSitemaps E input base robots =
     (if isLikelySitemapURL (Some input)
      then [\<lparr>loc = the (cloneURL (Some input)), depth = 0, allowMissing = False\<rparr>]
      else if robots \<noteq> None \<and> 0 < length (sitemaps (the robots))
      then map (\<lambda>l. \<lparr>loc = l, depth = 0, allowMissing = False\<rparr>) (sitemaps (the robots))
      else map (\<lambda>l. \<lparr>loc = l, depth = 0, allowMissing = True\<rparr>) (defaultSitemaps E base))"

section \<open>Filtering\<close>

text \<open>
  The two loops of \<open>shouldInclude\<close>: \<open>matches_any\<close> is true when some pattern of the
  list is not nil and matches the candidate.
\<close>

fun matches_any :: "regexp option list \<Rightarrow> string \<Rightarrow> bool" where
  "matches_any [] candidate = False"
| "matches_any (re # res) candidate =
     (case re of
        Some r \<Rightarrow> (if r candidate then True else matches_any res candidate)
      | None \<Rightarrow> matches_any res candidate)"

definition shouldInclude :: "env \<Rightarrow> opts \<Rightarrow> url option \<Rightarrow> bool" where
  "shouldInclude E cfg u =
     (case u of
        None \<Rightarrow> False
      | Some v \<Rightarrow>
          let candidate = url_String E v
          in if 0 < length (Include cfg) \<and> \<not> matches_any (Include cfg) candidate then False
             else if matches_any (Exclude cfg) candidate then False
             else True)"

section \<open>Parsing of entry fields\<close>

definition resolveLocation :: "env \<Rightarrow> url \<Rightarrow> string \<Rightarrow> error + url" where
  "resolveLocation E base l =
     (let trimmed = TrimSpace l
      in if trimmed = [] then Inl ErrEmptyLoc
         else case url_Parse E trimmed of
                Inl e \<Rightarrow> Inl (ExtErr e)
              | Inr parsed \<Rightarrow>
                  if IsAbs parsed then Inr (parsed\<lparr>Fragment := []\<rparr>)
                  else Inr ((ResolveReference E base parsed)\<lparr>Fragment := []\<rparr>))"

definition RFC3339Nano :: string where
  "RFC3339Nano = ''2006-01-02T15:04:05.999999999Z07:00''"

definition RFC3339 :: string where
  "RFC3339 = ''2006-01-02T15:04:05Z07:00''"

definition RFC1123 :: string where
  "RFC1123 = ''Mon, 02 Jan 2006 15:04:05 MST''"

definition RFC1123Z :: string where
  "RFC1123Z = ''Mon, 02 Jan 2006 15:04:05 -0700''"

definition layouts :: "string list" where
  "layouts = [RFC3339Nano, RFC3339, ''2006-01-02'', ''2006-01-02T15:04:05'', RFC1123, RFC1123Z]"

text \<open>The loop over the layouts: the first layout that parses returns.\<close>

fun try_layouts :: "env \<Rightarrow> string list \<Rightarrow> string \<Rightarrow> gotime option" where
  "try_layouts E [] trimmed = None"
| "try_layouts E (layout # rest) trimmed =
     (case time_Parse E layout trimmed of
        Some parsed \<Rightarrow> Some parsed
      | None \<Rightarrow> try_layouts E rest trimmed)"

definition parseTimeValue :: "env \<Rightarrow> string \<Rightarrow> gotime option" where
  "parseTimeValue E v =
     (let trimmed = TrimSpace v
      in if trimmed = [] then None else try_layouts E layouts trimmed)"

definition parsePriority :: "env \<Rightarrow> string \<Rightarrow> float64 option" where
  "parsePriority E v =
     (let trimmed = TrimSpace v
      in if trimmed = [] then None
         else case ParseFloat E trimmed of None \<Rightarrow> None | Some parsed \<Rightarrow> Some parsed)"

section \<open>HTTP helpers\<close>

text \<open>
  \<open>newRequest\<close>: the request, or the error of \<open>http.NewRequestWithContext\<close>. The
  per-request timeout travels with the request, so that the client's answer may
  depend on it.
\<close>

definition newRequest :: "env \<Rightarrow> opts \<Rightarrow> url \<Rightarrow> ext_error + request" where
  "newRequest E cfg u =
     (case NewRequest E (url_String E u) of
        Some e \<Rightarrow> Inl e
      | None \<Rightarrow>
          Inr \<lparr>req_url = url_String E u, req_user_agent = UserAgent cfg,
               req_timeout = (if 0 < PerRequestTimeout cfg then Some (PerRequestTimeout cfg) else None)\<rparr>)"

text \<open>\<open>retryAfterDelay\<close>, given the response (nil or not) and the current instant.\<close>

definition retryAfterDelay :: "env \<Rightarrow> gotime \<Rightarrow> response option \<Rightarrow> duration" where
  "retryAfterDelay E now resp =
     (case resp of
        None \<Rightarrow> 0
      | Some r \<Rightarrow>
          (let v = TrimSpace (HeaderGet r ''Retry-After'')
           in if v = [] then 0
              else (case Atoi v of
                      Some seconds \<Rightarrow>
                        (if seconds \<le> 0 then 0 else mul_duration seconds time_Second)
                    | None \<Rightarrow>
                        (case http_ParseTime E v of
                           Some t \<Rightarrow> time_Until t now
                         | None \<Rightarrow> 0))))"

text \<open>
  \<open>sleepWithContext\<close>: no sleep at all for a delay that is not positive; otherwise the
  sleep is recorded and the environment says whether the context ended it.
\<close>

definition sleepWithContext :: "env \<Rightarrow> duration \<Rightarrow> wstate \<Rightarrow> ctx_error option \<times> wstate" where
  "sleepWithContext E delay s =
     (if delay \<le> 0 then (None, s)
      else (sleep_interrupted E (clock s) delay,
            s\<lparr>clock := Suc (clock s), sleeps := sleeps s @ [delay]\<rparr>))"

text \<open>\<open>bufio.Reader.Peek n\<close>: the first \<open>n\<close> bytes, and an error when there are fewer.\<close>

definition Peek :: "stream \<Rightarrow> nat \<Rightarrow> byte list \<times> ext_error option" where
  "Peek r n =
     (case r of (bs, e) \<Rightarrow>
        (take n bs,
         if n \<le> length bs then None
         else Some (case e of None \<Rightarrow> ExtOther ''EOF'' | Some x \<Rightarrow> x)))"

text \<open>
  \<open>wrapReader\<close>: the stream the returned reader delivers. The buffered reader keeps
  the peeked bytes, so the pass-through case delivers the body unchanged.
\<close>

definition wrapReader :: "env \<Rightarrow> response \<Rightarrow> error + stream" where
  "wrapReader E resp =
     (let reader = Body resp;
          (peek, err) = Peek reader 2
      in if err = None \<and> length peek = 2 \<and> peek ! 0 = 0x1f \<and> peek ! 1 = 0x8b
         then (case gzip_NewReader E reader of
                 Inl e \<Rightarrow> Inl (ExtErr e)
               | Inr gz \<Rightarrow> Inr gz)
         else Inr reader)"

text \<open>
  The body of the loop of \<open>fetchSitemap\<close> at attempt number \<open>attempt\<close>: \<open>None\<close> is
  \<open>continue\<close>, \<open>Some r\<close> is \<open>fetchSitemap\<close> returning \<open>r\<close>. A result \<open>Inr None\<close> is
  the nil reader returned with a nil error.
\<close>

definition fetch_try ::
  "env \<Rightarrow> opts \<Rightarrow> url \<Rightarrow> bool \<Rightarrow> nat \<Rightarrow> wstate
     \<Rightarrow> (error + stream option) option \<times> wstate" where
  "fetch_try E cfg l allowMiss attempt s =
     (case newRequest E cfg l of
        Inl e \<Rightarrow> (Some (Inl (ExtErr e)), s)
      | Inr req \<Rightarrow>
          (let s1 = s\<lparr>clock := Suc (clock s), requests := requests s @ [req]\<rparr>
           in (case client_Do E (clock s) req of
                 Inl e \<Rightarrow> (Some (Inl (ExtErr e)), s1)
               | Inr resp \<Rightarrow>
                   (if StatusCode resp = 429 then
                      (let delay = retryAfterDelay E (time_Now E (clock s1)) (Some resp)
                       in if attempt = maxRetryAttempts
                          then (Some (Inl (ErrHTTPStatus l (StatusCode resp) (Status resp))), s1)
                          else
                            (let delay = (if delay \<le> 0 then defaultRetryDelay else delay);
                                 delay = (if maxRetryDelay < delay then maxRetryDelay else delay)
                             in (case sleepWithContext E delay s1 of
                                   (Some c, s2) \<Rightarrow> (Some (Inl (CtxErr c)), s2)
                                 | (None, s2) \<Rightarrow> (None, s2))))
                    else if StatusCode resp < 200 \<or> 300 \<le> StatusCode resp then
                      (if AllowNon200 cfg then (Some (Inr None), s1)
                       else if allowMiss \<and> StatusCode resp = 404 then (Some (Inr None), s1)
                       else (Some (Inl (ErrHTTPStatus l (StatusCode resp) (Status resp))), s1))
                    else
                      (case wrapReader E resp of
                         Inl e \<Rightarrow> (Some (Inl e), s1)
                       | Inr reader \<Rightarrow> (Some (Inr (Some reader)), s1))))))"

text \<open>The loop \<open>for attempt := 0; attempt <= maxRetryAttempts; attempt++\<close>.\<close>

function fetch_attempts ::
  "env \<Rightarrow> opts \<Rightarrow> url \<Rightarrow> bool \<Rightarrow> nat \<Rightarrow> wstate \<Rightarrow> (error + stream option) \<times> wstate" where
  "fetch_attempts E cfg l allowMiss attempt s =
     (if attempt \<le> maxRetryAttempts then
        (case fetch_try E cfg l allowMiss attempt s of
           (Some r, s1) \<Rightarrow> (r, s1)
         | (None, s1) \<Rightarrow> fetch_attempts E cfg l allowMiss (Suc attempt) s1)
      else (Inl (ErrHTTPStatus l 429 ''Too Many Requests''), s))"
  by pat_completeness auto
termination
  by (relation "measure (\<lambda>(E, cfg, l, allowMiss, attempt, s). Suc maxRetryAttempts - attempt)") auto

declare fetch_attempts.simps [simp del]

definition fetchSitemap ::
  "env \<Rightarrow> opts \<Rightarrow> url \<Rightarrow> bool \<Rightarrow> wstate \<Rightarrow> (error + stream option) \<times> wstate" where
  "fetchSitemap E cfg l allowMiss s =
     fetch_attempts E cfg l allowMiss 0 (s\<lparr>fetched := fetched s @ [l]\<rparr>)"

section \<open>robots.txt\<close>

text \<open>The loop of \<open>getRobots\<close> over the \<open>Sitemap:\<close> lines of a parsed robots.txt.\<close>

fun robots_sitemaps :: "env \<Rightarrow> url \<Rightarrow> string list \<Rightarrow> url list" where
  "robots_sitemaps E base [] = []"
| "robots_sitemaps E base (l # ls) =
     (case url_Parse E (TrimSpace l) of
        Inl e \<Rightarrow> robots_sitemaps E base ls
      | Inr parsed \<Rightarrow>
          (if \<not> IsAbs parsed then ResolveReference E base parsed else parsed)
            # robots_sitemaps E base ls)"

definition empty_rules :: robotsRules where
  "empty_rules = \<lparr>group = None, sitemaps = []\<rparr>"

definition robots_key :: "url \<Rightarrow> string" where
  "robots_key base = Scheme base @ ''://'' @ Host base"

definition getRobots ::
  "env \<Rightarrow> opts \<Rightarrow> url \<Rightarrow> wstate \<Rightarrow> (error + robotsRules) \<times> wstate" where
  "getRobots E cfg base s =
     (let key = robots_key base
      in case cache s key of
           Some rules \<Rightarrow> (Inr rules, s)
         | None \<Rightarrow>
             (let robotsURL = ResolveReference E base (zero_url\<lparr>Path := ''/robots.txt''\<rparr>)
              in case newRequest E cfg robotsURL of
                   Inl e \<Rightarrow> (Inl (ExtErr e), s)
                 | Inr req \<Rightarrow>
                     (let s1 = s\<lparr>clock := Suc (clock s), requests := requests s @ [req]\<rparr>
                      in case client_Do E (clock s) req of
                           Inl e \<Rightarrow>
                             (Inr empty_rules, s1\<lparr>cache := (cache s1)(key \<mapsto> empty_rules)\<rparr>)
                         | Inr resp \<Rightarrow>
                             (if StatusCode resp \<noteq> 200
                              then (Inr empty_rules, s1\<lparr>cache := (cache s1)(key \<mapsto> empty_rules)\<rparr>)
                              else case robots_FromResponse E resp of
                                     Inl e \<Rightarrow>
                                       (Inr empty_rules,
                                        s1\<lparr>cache := (cache s1)(key \<mapsto> empty_rules)\<rparr>)
                                   | Inr data \<Rightarrow>
                                       (let rules = \<lparr>group = FindGroup data (UserAgent cfg),
                                                     sitemaps = robots_sitemaps E base (Sitemaps data)\<rparr>
                                        in (Inr rules, s1\<lparr>cache := (cache s1)(key \<mapsto> rules)\<rparr>))))))"

definition allowedByRobots ::
  "env \<Rightarrow> opts \<Rightarrow> url \<Rightarrow> wstate \<Rightarrow> (error + bool) \<times> wstate" where
  "allowedByRobots E cfg l s =
     (let base = zero_url\<lparr>Scheme := Scheme l, Host := Host l\<rparr>
      in case getRobots E cfg base s of
           (Inl err, s1) \<Rightarrow> (Inr True, s1)
         | (Inr rules, s1) \<Rightarrow>
             (case group rules of
                None \<Rightarrow> (Inr True, s1)
              | Some g \<Rightarrow>
                  (let path = EscapedPath E l;
                       path = (if RawQuery l \<noteq> [] then path @ ''?'' @ RawQuery l else path)
                   in (Inr (g path), s1))))"

section \<open>XML parsing\<close>

text \<open>
  The loop of \<open>parseSitemap\<close> over what the decoder delivers: the steps of the
  document, then the error that ends the token stream (\<open>None\<close> for \<open>io.EOF\<close>). The
  context is asked before every token. A callback returns its error and the state.
\<close>

fun parse_steps ::
  "env \<Rightarrow> (xmlURLEntry \<Rightarrow> wstate \<Rightarrow> error option \<times> wstate) option
       \<Rightarrow> (xmlSitemapEntry \<Rightarrow> wstate \<Rightarrow> error option \<times> wstate) option
       \<Rightarrow> ext_error option \<Rightarrow> xml_step list \<Rightarrow> wstate \<Rightarrow> error option \<times> wstate" where
  "parse_steps E onURL onSitemap fin [] s =
     (case ctx_Err E (clock s) of
        Some c \<Rightarrow> (Some (CtxErr c), tick s)
      | None \<Rightarrow>
          (case fin of
             None \<Rightarrow> (None, tick s)
           | Some e \<Rightarrow> (Some (ExtErr e), tick s)))"
| "parse_steps E onURL onSitemap fin (st # rest) s =
     (case ctx_Err E (clock s) of
        Some c \<Rightarrow> (Some (CtxErr c), tick s)
      | None \<Rightarrow>
          (case st of
             OtherToken \<Rightarrow> parse_steps E onURL onSitemap fin rest (tick s)
           | URLElem d \<Rightarrow>
               (case d of
                  Inl e \<Rightarrow> (Some (ExtErr e), tick s)
                | Inr entry \<Rightarrow>
                    (case onURL of
                       None \<Rightarrow> parse_steps E onURL onSitemap fin rest (tick s)
                     | Some f \<Rightarrow>
                         (case f entry (tick s) of
                            (Some err, s1) \<Rightarrow> (Some err, s1)
                          | (None, s1) \<Rightarrow> parse_steps E onURL onSitemap fin rest s1)))
           | SitemapElem d \<Rightarrow>
               (case d of
                  Inl e \<Rightarrow> (Some (ExtErr e), tick s)
                | Inr entry \<Rightarrow>
                    (case onSitemap of
                       None \<Rightarrow> parse_steps E onURL onSitemap fin rest (tick s)
                     | Some f \<Rightarrow>
                         (case f entry (tick s) of
                            (Some err, s1) \<Rightarrow> (Some err, s1)
                          | (None, s1) \<Rightarrow> parse_steps E onURL onSitemap fin rest s1)))))"

definition parseSitemap ::
  "env \<Rightarrow> stream \<Rightarrow> (xmlURLEntry \<Rightarrow> wstate \<Rightarrow> error option \<times> wstate) option
       \<Rightarrow> (xmlSitemapEntry \<Rightarrow> wstate \<Rightarrow> error option \<times> wstate) option
       \<Rightarrow> wstate \<Rightarrow> error option \<times> wstate" where
  "parseSitemap E reader onURL onSitemap s =
     (case xml_tokens E reader of (steps, fin) \<Rightarrow> parse_steps E onURL onSitemap fin steps s)"

section \<open>The traversal\<close>

text \<open>
  The URL callback of \<open>Walk\<close>, after the location is resolved and robots has allowed
  it: filter, limit check, callback, counter. The callback's invocation is logged in
  \<open>yields\<close> whether it fails or not.
\<close>

definition yield_item ::
  "env \<Rightarrow> opts \<Rightarrow> yield_fn \<Rightarrow> sitemapTask \<Rightarrow> xmlURLEntry \<Rightarrow> url \<Rightarrow> wstate
     \<Rightarrow> error option \<times> wstate" where
  "yield_item E cfg yield current entry l s =
     (if \<not> shouldInclude E cfg (Some l) then (None, s)
      else if 0 < MaxURLs cfg \<and> MaxURLs cfg \<le> urlCount s
      then (Some (ErrMaxURLs (MaxURLs cfg)), s)
      else
        (let it = \<lparr>Loc = l,
                   LastMod = parseTimeValue E (entryLastMod entry),
                   ChangeFreq = TrimSpace (entryChangeFreq entry),
                   Priority = parsePriority E (entryPriority entry),
                   Sitemap = cloneURL (Some (loc current))\<rparr>
         in case yield (yields s) it of
              Some err \<Rightarrow> (Some (ErrYield err), s\<lparr>yields := yields s @ [it]\<rparr>)
            | None \<Rightarrow> (None, s\<lparr>yields := yields s @ [it], urlCount := urlCount s + 1\<rparr>)))"

definition onURL ::
  "env \<Rightarrow> opts \<Rightarrow> yield_fn \<Rightarrow> sitemapTask \<Rightarrow> xmlURLEntry \<Rightarrow> wstate
     \<Rightarrow> error option \<times> wstate" where
  "onURL E cfg yield current entry s =
     (case resolveLocation E (loc current) (entryLoc entry) of
        Inl err \<Rightarrow> (None, s)
      | Inr l \<Rightarrow>
          (if \<not> IgnoreRobots cfg
           then (case allowedByRobots E cfg l s of
                   (Inl err, s1) \<Rightarrow> (Some err, s1)
                 | (Inr allowed, s1) \<Rightarrow>
                     (if \<not> allowed then (None, s1)
                      else yield_item E cfg yield current entry l s1))
           else yield_item E cfg yield current entry l s))"

definition onSitemap ::
  "env \<Rightarrow> sitemapTask \<Rightarrow> xmlSitemapEntry \<Rightarrow> wstate \<Rightarrow> error option \<times> wstate" where
  "onSitemap E current entry s =
     (case resolveLocation E (loc current) (smLoc entry) of
        Inl err \<Rightarrow> (None, s)
      | Inr l \<Rightarrow>
          (None, s\<lparr>queue := queue s @ [\<lparr>loc = l, depth = depth current + 1,
                                          allowMissing = False\<rparr>]\<rparr>))"

text \<open>
  What \<open>Walk\<close> does with an error of \<open>parseSitemap\<close>: context errors (also wrapped
  ones), the URL limit and a callback failure return as they are, anything else
  becomes a parse failure of the current sitemap.
\<close>

fun is_ctx_class :: "error \<Rightarrow> bool" where
  "is_ctx_class (CtxErr c) = True"
| "is_ctx_class (ExtErr (ExtCtx c)) = True"
| "is_ctx_class (ErrYield (ExtCtx c)) = True"
| "is_ctx_class (ErrSitemapParse u e) = is_ctx_class e"
| "is_ctx_class e = False"

fun as_ErrMaxURLs :: "error \<Rightarrow> bool" where
  "as_ErrMaxURLs (ErrMaxURLs n) = True"
| "as_ErrMaxURLs (ErrSitemapParse u e) = as_ErrMaxURLs e"
| "as_ErrMaxURLs e = False"

fun as_ErrYield :: "error \<Rightarrow> bool" where
  "as_ErrYield (ErrYield e) = True"
| "as_ErrYield (ErrSitemapParse u e) = as_ErrYield e"
| "as_ErrYield e = False"

definition classify_parse_error :: "url \<Rightarrow> error \<Rightarrow> error" where
  "classify_parse_error u err =
     (if is_ctx_class err then err
      else if as_ErrMaxURLs err then err
      else if as_ErrYield err then err
      else ErrSitemapParse u err)"

text \<open>
  The part of the loop body after the fetch limit: count, fetch, parse. The result is
  the error \<open>Walk\<close> returns with, or \<open>None\<close> when the loop goes on.
\<close>

definition fetch_and_parse ::
  "env \<Rightarrow> opts \<Rightarrow> yield_fn \<Rightarrow> sitemapTask \<Rightarrow> wstate \<Rightarrow> error option \<times> wstate" where
  "fetch_and_parse E cfg yield current s =
     (if 0 < MaxSitemaps cfg \<and> MaxSitemaps cfg \<le> sitemapCount s
      then (Some (ErrMaxSitemaps (MaxSitemaps cfg)), s)
      else
        (case fetchSitemap E cfg (loc current) (allowMissing current)
                (s\<lparr>sitemapCount := sitemapCount s + 1\<rparr>) of
           (Inl err, s1) \<Rightarrow> (Some err, s1)
         | (Inr None, s1) \<Rightarrow> (None, s1)
         | (Inr (Some reader), s1) \<Rightarrow>
             (case parseSitemap E reader (Some (onURL E cfg yield current))
                     (Some (onSitemap E current)) s1 of
                (None, s2) \<Rightarrow> (None, s2)
              | (Some err, s2) \<Rightarrow> (Some (classify_parse_error (loc current) err), s2))))"

text \<open>The loop body for the task \<open>current\<close>, already taken off the queue.\<close>

definition process_task ::
  "env \<Rightarrow> opts \<Rightarrow> yield_fn \<Rightarrow> sitemapTask \<Rightarrow> wstate \<Rightarrow> error option \<times> wstate" where
  "process_task E cfg yield current s =
     (if 0 < MaxDepth cfg \<and> MaxDepth cfg < depth current
      then (Some (ErrMaxDepth (MaxDepth cfg) (loc current)), s)
      else
        (let key = canonicalURLKey E (Some (loc current))
         in if key \<in> seen s then (None, s)
            else
              (let s1 = s\<lparr>seen := insert key (seen s)\<rparr>
               in if \<not> IgnoreRobots cfg
                  then (case allowedByRobots E cfg (loc current) s1 of
                          (Inl err, s2) \<Rightarrow> (Some err, s2)
                        | (Inr allowed, s2) \<Rightarrow>
                            (if \<not> allowed then (None, s2)
                             else fetch_and_parse E cfg yield current s2))
                  else fetch_and_parse E cfg yield current s1)))"

text \<open>
  The loop of \<open>Walk\<close>. A server can feed it new sitemap locations for ever, so the
  number of tasks it may take off the queue is bounded by the first argument, the
  fuel; \<open>None\<close> is the loop still running when the fuel is used up, \<open>Some r\<close> is
  \<open>Walk\<close> returning \<open>r\<close>.
\<close>

fun walk_loop ::
  "nat \<Rightarrow> env \<Rightarrow> opts \<Rightarrow> yield_fn \<Rightarrow> wstate \<Rightarrow> error option option \<times> wstate" where
  "walk_loop 0 E cfg yield s =
     (case queue s of
        [] \<Rightarrow> (Some None, s)
      | current # rest \<Rightarrow> (None, s))"
| "walk_loop (Suc k) E cfg yield s =
     (case queue s of
        [] \<Rightarrow> (Some None, s)
      | current # rest \<Rightarrow>
          (case ctx_Err E (clock s) of
             Some c \<Rightarrow> (Some (Some (CtxErr c)), tick s)
           | None \<Rightarrow>
               (case process_task E cfg yield current ((tick s)\<lparr>queue := rest\<rparr>) of
                  (Some err, s1) \<Rightarrow> (Some (Some err), s1)
                | (None, s1) \<Rightarrow> walk_loop k E cfg yield s1)))"

text \<open>
  \<open>Walk\<close>. A nil context is \<open>context.Background()\<close>, an environment whose \<open>ctx_Err\<close>
  is always \<open>None\<close>. The error \<open>getRobots\<close> may return while seeding is dropped.
\<close>

definition seed_robots ::
  "env \<Rightarrow> opts \<Rightarrow> url \<Rightarrow> url \<Rightarrow> robotsRules option \<times> wstate" where
  "seed_robots E cfg inputURL baseURL =
     (if \<not> IgnoreRobots cfg \<and> \<not> isLikelySitemapURL (Some inputURL)
      then (case getRobots E cfg baseURL init_state of
              (Inl err, s) \<Rightarrow> (None, s)
            | (Inr rules, s) \<Rightarrow> (Some rules, s))
      else (None, init_state))"

definition Walk ::
  "env \<Rightarrow> opts \<Rightarrow> url option \<Rightarrow> yield_fn option \<Rightarrow> nat \<Rightarrow> error option option \<times> wstate" where
  "Walk E cfg website yield fuel =
     (case yield of
        None \<Rightarrow> (Some (Some ErrNilYield), init_state)
      | Some y \<Rightarrow>
          (case normalizeInputURL E website of
             Inl err \<Rightarrow> (Some (Some err), init_state)
           | Inr (inputURL, baseURL) \<Rightarrow>
               (case seed_robots E cfg inputURL baseURL of
                  (baseRobots, s) \<Rightarrow>
                    (let initial = initialSitemaps E inputURL baseURL baseRobots
                     in if length initial = 0 then (Some (Some (ErrNoSitemaps baseURL)), s)
                        else walk_loop fuel E cfg y (s\<lparr>queue := initial\<rparr>)))))"

section \<open>An example site\<close>

text \<open>
  A concrete environment for running the model. Its URL functions agree with net/url
  on the plain references used here (an \<open>https\<close> URL or a path, nothing to escape, no
  query, no fragment, no dot segments); the context is never cancelled and no sleep is
  interrupted. The site serves:
  \<^item> \<open>https://example.com/sitemap.xml\<close>: a URL set with the entries \<open>/keep\<close> and \<open>/skip\<close>;
  \<^item> \<open>https://example.com/sitemap.xml.gz\<close>: the same document, gzip-compressed;
  \<^item> \<open>https://example.com/a/sitemap.xml\<close>: a URL set with the relative entry \<open>page\<close>;
  \<^item> \<open>https://example.com/index.xml\<close>: a sitemap index naming \<open>/a/sitemap.xml\<close>;
  \<^item> \<open>https://blocked.example/robots.txt\<close>: \<open>User-agent: *\<close>, \<open>Disallow: /sitemap.xml\<close>;
  \<^item> \<open>https://blocked.example/sitemap.xml\<close>: a URL set with the entry \<open>/keep\<close>;
  \<^item> \<open>https://busy.example/sitemap.xml\<close>: always 429 with \<open>Retry-After: 18446744074\<close>;
  \<^item> anything else: 404.
\<close>

definition bytes_of :: "string \<Rightarrow> byte list" where
  "bytes_of s = map (\<lambda>c. of_nat (of_char c)) s"

definition ex_String :: "url \<Rightarrow> string" where
  "ex_String u =
     Scheme u @ ''://'' @ Host u @ Path u
       @ (if RawQuery u = [] then [] else ''?'' @ RawQuery u)
       @ (if Fragment u = [] then [] else ''#'' @ Fragment u)"

definition ex_Parse :: "string \<Rightarrow> ext_error + url" where
  "ex_Parse s =
     (if take 8 s = ''https://''
      then Inr (zero_url\<lparr>Scheme := ''https'',
                          Host := takeWhile (\<lambda>c. c \<noteq> CHR ''/'') (drop 8 s),
                          Path := dropWhile (\<lambda>c. c \<noteq> CHR ''/'') (drop 8 s)\<rparr>)
      else Inr (zero_url\<lparr>Path := s\<rparr>))"

definition ex_ResolveReference :: "url \<Rightarrow> url \<Rightarrow> url" where
  "ex_ResolveReference base ref =
     (if Scheme ref \<noteq> [] then ref
      else if take 1 (Path ref) = ''/''
      then zero_url\<lparr>Scheme := Scheme base, Host := Host base, Path := Path ref\<rparr>
      else zero_url\<lparr>Scheme := Scheme base, Host := Host base,
                     Path := rev (dropWhile (\<lambda>c. c \<noteq> CHR ''/'') (rev (Path base))) @ Path ref\<rparr>)"

definition keep_skip_doc :: "byte list" where
  "keep_skip_doc =
     bytes_of ''<urlset><url><loc>/keep</loc></url><url><loc>/skip</loc></url></urlset>''"

definition keep_skip_gz :: "byte list" where
  "keep_skip_gz = [0x1f, 0x8b, 0x08, 0x00] @ bytes_of ''(deflate stream of the document)''"

definition page_doc :: "byte list" where
  "page_doc = bytes_of ''<urlset><url><loc>page</loc></url></urlset>''"

definition index_doc :: "byte list" where
  "index_doc =
     bytes_of ''<sitemapindex><sitemap><loc>/a/sitemap.xml</loc></sitemap></sitemapindex>''"

definition keep_doc :: "byte list" where
  "keep_doc = bytes_of ''<urlset><url><loc>/keep</loc></url></urlset>''"

definition robots_body :: "byte list" where
  "robots_body = bytes_of ''User-agent: *\<newline>Disallow: /sitemap.xml\<newline>''"

definition url_entry :: "string \<Rightarrow> xmlURLEntry" where
  "url_entry l = \<lparr>entryLoc = l, entryLastMod = [], entryChangeFreq = [], entryPriority = []\<rparr>"

definition ex_xml_tokens :: "stream \<Rightarrow> xml_step list \<times> ext_error option" where
  "ex_xml_tokens r =
     (if fst r = keep_skip_doc
      then ([OtherToken, URLElem (Inr (url_entry ''/keep'')), URLElem (Inr (url_entry ''/skip'')),
             OtherToken], snd r)
      else if fst r = page_doc
      then ([OtherToken, URLElem (Inr (url_entry ''page'')), OtherToken], snd r)
      else if fst r = index_doc
      then ([OtherToken, SitemapElem (Inr \<lparr>smLoc = ''/a/sitemap.xml'', smLastMod = []\<rparr>),
             OtherToken], snd r)
      else if fst r = keep_doc
      then ([OtherToken, URLElem (Inr (url_entry ''/keep'')), OtherToken], snd r)
      else ([], Some (ExtOther ''XML syntax error'')))"

definition ex_gzip_NewReader :: "stream \<Rightarrow> ext_error + stream" where
  "ex_gzip_NewReader r =
     (if fst r = keep_skip_gz then Inr (keep_skip_doc, snd r)
      else Inl (ExtOther ''gzip: invalid header''))"

definition ex_robots_FromResponse :: "response \<Rightarrow> ext_error + robotsData" where
  "ex_robots_FromResponse resp =
     (if fst (Body resp) = robots_body
      then Inr \<lparr>FindGroup = (\<lambda>agent. Some (\<lambda>path. take 12 path \<noteq> ''/sitemap.xml'')),
                Sitemaps = []\<rparr>
      else Inr \<lparr>FindGroup = (\<lambda>agent. Some (\<lambda>path. True)), Sitemaps = []\<rparr>)"

definition ok_response :: "byte list \<Rightarrow> response" where
  "ok_response b =
     \<lparr>StatusCode = 200, Status = ''200 OK'', HeaderGet = (\<lambda>k. []), Body = (b, None)\<rparr>"

definition ex_client_Do :: "nat \<Rightarrow> request \<Rightarrow> ext_error + response" where
  "ex_client_Do t req =
     (if req_url req = ''https://example.com/sitemap.xml'' then Inr (ok_response keep_skip_doc)
      else if req_url req = ''https://example.com/sitemap.xml.gz''
      then Inr (ok_response keep_skip_gz)
      else if req_url req = ''https://example.com/a/sitemap.xml'' then Inr (ok_response page_doc)
      else if req_url req = ''https://example.com/index.xml'' then Inr (ok_response index_doc)
      else if req_url req = ''https://blocked.example/robots.txt''
      then Inr (ok_response robots_body)
      else if req_url req = ''https://blocked.example/sitemap.xml''
      then Inr (ok_response keep_doc)
      else if req_url req = ''https://busy.example/sitemap.xml''
      then Inr \<lparr>StatusCode = 429, Status = ''429 Too Many Requests'',
                HeaderGet = (\<lambda>k. if k = ''Retry-After'' then ''18446744074'' else []),
                Body = ([], None)\<rparr>
      else Inr \<lparr>StatusCode = 404, Status = ''404 Not Found'', HeaderGet = (\<lambda>k. []),
                Body = ([], None)\<rparr>)"

definition example_env :: env where
  "example_env =
     \<lparr>url_Parse = ex_Parse,
      ResolveReference = ex_ResolveReference,
      url_String = ex_String,
      EscapedPath = Path,
      time_Parse = (\<lambda>layout v. if layout = ''2006-01-02'' \<and> v = ''2024-01-02''
                                 then Some 1704153600000000000 else None),
      ParseFloat = (\<lambda>v. if v = ''0.7'' then Some 0x3FE6666666666666 else None),
      http_ParseTime = (\<lambda>v. None),
      NewRequest = (\<lambda>u. None),
      robots_FromResponse = ex_robots_FromResponse,
      gzip_NewReader = ex_gzip_NewReader,
      xml_tokens = ex_xml_tokens,
      ctx_Err = (\<lambda>t. None),
      client_Do = ex_client_Do,
      time_Now = (\<lambda>t. 0),
      sleep_interrupted = (\<lambda>t d. None)\<rparr>"

definition example_opts :: opts where
  "example_opts =
     New \<lparr>MaxDepth = 0, MaxSitemaps = 0, MaxURLs = 0, AllowNon200 = False,
          IgnoreRobots = False, UserAgent = [], PerRequestTimeout = 0,
          Include = [], Exclude = []\<rparr>"

definition https_url :: "string \<Rightarrow> string \<Rightarrow> url" where
  "https_url h p = zero_url\<lparr>Scheme := ''https'', Host := h, Path := p\<rparr>"

text \<open>A callback that always succeeds, and a literal pattern as Go's regexp matches it.\<close>

definition yield_ok :: yield_fn where
  "yield_ok seen_items it = None"

fun contains :: "string \<Rightarrow> string \<Rightarrow> bool" where
  "contains p [] = (p = [])"
| "contains p (c # cs) = (take (length p) (c # cs) = p \<or> contains p cs)"

section \<open>Notions used in the statements\<close>

text \<open>The gzip magic number at the head of a byte sequence.\<close>

definition gzip_magic :: "byte list \<Rightarrow> bool" where
  "gzip_magic bs = (2 \<le> length bs \<and> bs ! 0 = 0x1f \<and> bs ! 1 = 0x8b)"

text \<open>
  The invariant of the seen set: the locations handed to \<open>fetchSitemap\<close> so far have
  pairwise different canonical keys, all of them in \<open>seen\<close>.
\<close>

definition visited_inv :: "env \<Rightarrow> wstate \<Rightarrow> bool" where
  "visited_inv E s =
     (distinct (map (\<lambda>u. canonicalURLKey E (Some u)) (fetched s))
      \<and> (\<forall>u\<in>set (fetched s). canonicalURLKey E (Some u) \<in> seen s))"


text \<open>
  What holds of every item handed to the callback: it passed the filter, and its
  location is a \<open>loc\<close> value resolved against the sitemap it was found in, a sitemap
  that was fetched.
\<close>

definition items_inv :: "env \<Rightarrow> opts \<Rightarrow> wstate \<Rightarrow> bool" where
  "items_inv E cfg s =
     (\<forall>it\<in>set (yields s).
        shouldInclude E cfg (Some (Loc it))
        \<and> (\<exists>cur\<in>set (fetched s). \<exists>raw.
              Sitemap it = Some cur \<and> resolveLocation E cur raw = Inr (Loc it)))"

text \<open>The options of the filter example: include \<open>keep\<close>, exclude \<open>skip\<close>.\<close>

definition keep_skip_opts :: opts where
  "keep_skip_opts =
     example_opts\<lparr>Include := [Some (contains ''keep'')], Exclude := [Some (contains ''skip'')]\<rparr>"

text \<open>
  A second HTTP client answers like the environment's up to the encoding of the
  bodies: the same errors, and responses with the same status, the same
  \<open>Retry-After\<close> header, the same reading as a robots.txt, and bodies that
  \<open>wrapReader\<close> turns into the same stream.
\<close>

definition same_up_to_encoding :: "env \<Rightarrow> (nat \<Rightarrow> request \<Rightarrow> ext_error + response) \<Rightarrow> bool" where
  "same_up_to_encoding E d =
     (\<forall>t req.
        (case client_Do E t req of
           Inl e \<Rightarrow> d t req = Inl e
         | Inr r \<Rightarrow>
             (\<exists>r'. d t req = Inr r'
                \<and> StatusCode r' = StatusCode r \<and> Status r' = Status r
                \<and> HeaderGet r' ''Retry-After'' = HeaderGet r ''Retry-After''
                \<and> robots_FromResponse E r' = robots_FromResponse E r
                \<and> wrapReader E r' = wrapReader E r)))"

text \<open>The example site with the first sitemap served gzip-compressed.\<close>

definition gz_client_Do :: "nat \<Rightarrow> request \<Rightarrow> ext_error + response" where
  "gz_client_Do t req =
     (if req_url req = ''https://example.com/sitemap.xml'' then Inr (ok_response keep_skip_gz)
      else ex_client_Do t req)"

text \<open>
  The delay \<open>fetchSitemap\<close> sleeps for after a 429 response: what \<open>retryAfterDelay\<close>
  computes, the default when that is not positive, the ceiling when it is above it.
\<close>

definition retry_delay :: "env \<Rightarrow> gotime \<Rightarrow> response \<Rightarrow> duration" where
  "retry_delay E now resp =
     (let delay = retryAfterDelay E now (Some resp);
          delay = (if delay \<le> 0 then defaultRetryDelay else delay)
      in if maxRetryDelay < delay then maxRetryDelay else delay)"

text \<open>The answer of \<open>busy.example\<close> in the example site.\<close>

definition busy_response :: response where
  "busy_response =
     \<lparr>StatusCode = 429, Status = ''429 Too Many Requests'',
      HeaderGet = (\<lambda>k. if k = ''Retry-After'' then ''18446744074'' else []),
      Body = ([], None)\<rparr>"

text \<open>
  The counter of \<open>Walk\<close> against the callback's invocations: while the traversal runs,
  \<open>urlCount\<close> is the number of invocations, and stays within a positive limit.
  \<open>urls_end\<close> is what holds when \<open>Walk\<close> returns with an error.
\<close>

definition urls_inv :: "opts \<Rightarrow> wstate \<Rightarrow> bool" where
  "urls_inv cfg s \<longleftrightarrow>
     urlCount s = int (length (yields s))
     \<and> (0 < MaxURLs cfg \<longrightarrow> int (length (yields s)) \<le> MaxURLs cfg)"

definition within_limit :: "opts \<Rightarrow> wstate \<Rightarrow> bool" where
  "within_limit cfg s \<longleftrightarrow> (0 < MaxURLs cfg \<longrightarrow> int (length (yields s)) \<le> MaxURLs cfg)"

fun urls_end :: "opts \<Rightarrow> error \<Rightarrow> wstate \<Rightarrow> bool" where
  "urls_end cfg (ErrMaxURLs n) s =
     (n = MaxURLs cfg \<and> 0 < n \<and> int (length (yields s)) = n \<and> urlCount s = n)"
| "urls_end cfg e s = within_limit cfg s"

text \<open>
  A traversal with a limit, in state \<open>s'\<close>, has stopped at the limit where the
  traversal without one, in state \<open>t\<close>, went on to invoke the callback.
\<close>

definition limit_hit :: "opts \<Rightarrow> wstate \<Rightarrow> wstate \<Rightarrow> bool" where
  "limit_hit cfg s' t \<longleftrightarrow>
     int (length (yields s')) = MaxURLs cfg \<and> length (yields s') < length (yields t)
     \<and> take (length (yields s')) (yields t) = yields s'"

section \<open>Filters and field parsing\<close>

lemma matches_any_iff:
  "matches_any res c \<longleftrightarrow> (\<exists>r. Some r \<in> set res \<and> r c)"
  by (induction res) (auto split: option.splits)

lemma shouldInclude_filter:
  "shouldInclude E cfg (Some u) \<longleftrightarrow>
     (Include cfg = [] \<or> (\<exists>re\<in>set (Include cfg). \<exists>r. re = Some r \<and> r (url_String E u)))
   \<and> (\<forall>re\<in>set (Exclude cfg). \<forall>r. re = Some r \<longrightarrow> \<not> r (url_String E u))"
  by (auto simp: shouldInclude_def matches_any_iff Let_def)

lemma try_layouts_Some:
  "try_layouts E ls s = Some t \<longleftrightarrow>
     (\<exists>i<length ls. time_Parse E (ls ! i) s = Some t \<and> (\<forall>j<i. time_Parse E (ls ! j) s = None))"
proof (induction ls)
  case Nil
  then show ?case by simp
next
  case (Cons l ls)
  show ?case
  proof (cases "time_Parse E l s")
    case None
    have "(\<exists>i<length (l # ls). time_Parse E ((l # ls) ! i) s = Some t \<and> (\<forall>j<i. time_Parse E ((l # ls) ! j) s = None))
      \<longleftrightarrow> (\<exists>i<length ls. time_Parse E (ls ! i) s = Some t \<and> (\<forall>j<i. time_Parse E (ls ! j) s = None))"
      (is "?L \<longleftrightarrow> ?R")
    proof
      assume ?L
      then obtain i where i: "i < length (l # ls)" "time_Parse E ((l # ls) ! i) s = Some t"
        "\<forall>j<i. time_Parse E ((l # ls) ! j) s = None" by blast
      from i None obtain k where k: "i = Suc k" by (cases i) auto
      have "\<forall>j<k. time_Parse E (ls ! j) s = None"
      proof (intro allI impI)
        fix j assume "j < k"
        then have "Suc j < i" using k by simp
        with i(3) have "time_Parse E ((l # ls) ! Suc j) s = None" by blast
        then show "time_Parse E (ls ! j) s = None" by simp
      qed
      with i k show ?R by auto
    next
      assume ?R
      then obtain i where i: "i < length ls" "time_Parse E (ls ! i) s = Some t"
        "\<forall>j<i. time_Parse E (ls ! j) s = None" by blast
      have "\<forall>j<Suc i. time_Parse E ((l # ls) ! j) s = None"
      proof (intro allI impI)
        fix j assume "j < Suc i"
        then show "time_Parse E ((l # ls) ! j) s = None"
          using None i(3) by (cases j) auto
      qed
      with i show ?L by (intro exI[of _ "Suc i"]) auto
    qed
    with None Cons show ?thesis by simp
  next
    case (Some a)
    have "(\<exists>i<length (l # ls). time_Parse E ((l # ls) ! i) s = Some t \<and> (\<forall>j<i. time_Parse E ((l # ls) ! j) s = None))
      \<longleftrightarrow> a = t" (is "?L \<longleftrightarrow> _")
    proof
      assume ?L
      then obtain i where i: "i < length (l # ls)" "time_Parse E ((l # ls) ! i) s = Some t"
        "\<forall>j<i. time_Parse E ((l # ls) ! j) s = None" by blast
      have "i = 0"
      proof (rule ccontr)
        assume "i \<noteq> 0"
        then have "0 < i" by simp
        with i(3) have "time_Parse E ((l # ls) ! 0) s = None" by blast
        with Some show False by simp
      qed
      with i Some show "a = t" by simp
    next
      assume "a = t"
      with Some show ?L by (intro exI[of _ 0]) auto
    qed
    with Some show ?thesis by simp
  qed
qed

lemma try_layouts_None:
  "try_layouts E ls s = None \<longleftrightarrow> (\<forall>l\<in>set ls. time_Parse E l s = None)"
  by (induction ls) (auto split: option.splits)

section \<open>Transport decoding, robots.txt, location resolution\<close>

lemma Peek_two:
  "Peek (bs, e) 2 = (take 2 bs, if 2 \<le> length bs then None
                      else Some (case e of None \<Rightarrow> ExtOther ''EOF'' | Some x \<Rightarrow> x))"
  by (simp add: Peek_def)

lemma wrapReader_magic:
  "gzip_magic (fst (Body resp)) \<Longrightarrow>
   wrapReader E resp = (case gzip_NewReader E (Body resp) of
                          Inl e \<Rightarrow> Inl (ExtErr e) | Inr gz \<Rightarrow> Inr gz)"
  by (cases "Body resp") (auto simp: wrapReader_def Peek_def gzip_magic_def Let_def)

lemma wrapReader_plain:
  "\<not> gzip_magic (fst (Body resp)) \<Longrightarrow> wrapReader E resp = Inr (Body resp)"
  by (cases "Body resp") (auto simp: wrapReader_def Peek_def gzip_magic_def Let_def min_def)

lemma wrapReader_body_only:
  "Body resp' = Body resp \<Longrightarrow> wrapReader E resp' = wrapReader E resp"
  by (simp add: wrapReader_def)

lemma getRobots_cached:
  "cache s (robots_key base) = Some rules \<Longrightarrow> getRobots E cfg base s = (Inr rules, s)"
  by (simp add: getRobots_def)

lemma getRobots_failure:
  assumes "cache s (robots_key base) = None"
    and "newRequest E cfg (ResolveReference E base (zero_url\<lparr>Path := ''/robots.txt''\<rparr>)) = Inr req"
    and "(\<exists>e. client_Do E (clock s) req = Inl e)
       \<or> (\<exists>resp. client_Do E (clock s) req = Inr resp
             \<and> (StatusCode resp \<noteq> 200 \<or> (\<exists>e. robots_FromResponse E resp = Inl e)))"
  shows "getRobots E cfg base s =
           (Inr empty_rules,
            s\<lparr>clock := Suc (clock s), requests := requests s @ [req],
              cache := (cache s)(robots_key base \<mapsto> empty_rules)\<rparr>)"
  using assms by (auto simp: getRobots_def Let_def)

lemma allowedByRobots_no_error:
  "\<exists>b s'. allowedByRobots E cfg l s = (Inr b, s')"
  by (auto simp: allowedByRobots_def Let_def split: prod.splits sum.splits option.splits)

lemma allowedByRobots_no_group:
  assumes "getRobots E cfg (zero_url\<lparr>Scheme := Scheme l, Host := Host l\<rparr>) s = (r, s')"
    and "\<forall>rules. r = Inr rules \<longrightarrow> group rules = None"
  shows "allowedByRobots E cfg l s = (Inr True, s')"
  using assms by (auto simp: allowedByRobots_def Let_def split: sum.splits option.splits)


section \<open>What each operation leaves unchanged\<close>

lemma getRobots_frame:
  assumes "getRobots E cfg base s = (r, s')"
  shows "fetched s' = fetched s \<and> sleeps s' = sleeps s \<and> yields s' = yields s
       \<and> queue s' = queue s \<and> seen s' = seen s \<and> sitemapCount s' = sitemapCount s
       \<and> urlCount s' = urlCount s"
  using assms
  by (auto simp: getRobots_def Let_def split: option.splits sum.splits if_splits)

lemma allowedByRobots_frame:
  assumes "allowedByRobots E cfg l s = (r, s')"
  shows "fetched s' = fetched s \<and> sleeps s' = sleeps s \<and> yields s' = yields s
       \<and> queue s' = queue s \<and> seen s' = seen s \<and> sitemapCount s' = sitemapCount s
       \<and> urlCount s' = urlCount s"
proof -
  obtain r0 where "getRobots E cfg (zero_url\<lparr>Scheme := Scheme l, Host := Host l\<rparr>) s = (r0, s')"
    using assms
    by (auto simp: allowedByRobots_def Let_def split: prod.splits sum.splits option.splits)
  then show ?thesis by (rule getRobots_frame)
qed

lemma fetch_try_frame:
  assumes "fetch_try E cfg l am attempt s = (r, s')"
  shows "fetched s' = fetched s \<and> yields s' = yields s \<and> cache s' = cache s
       \<and> queue s' = queue s \<and> seen s' = seen s \<and> sitemapCount s' = sitemapCount s
       \<and> urlCount s' = urlCount s"
  using assms
  by (auto simp: fetch_try_def sleepWithContext_def Let_def
           split: option.splits sum.splits if_splits prod.splits)

lemma fetch_attempts_frame:
  "fetch_attempts E cfg l am attempt s = (r, s') \<Longrightarrow>
     fetched s' = fetched s \<and> yields s' = yields s \<and> cache s' = cache s
       \<and> queue s' = queue s \<and> seen s' = seen s \<and> sitemapCount s' = sitemapCount s
       \<and> urlCount s' = urlCount s"
proof (induction E cfg l am attempt s rule: fetch_attempts.induct)
  case (1 E cfg l allowMiss attempt s)
  show ?case
  proof (cases "attempt \<le> maxRetryAttempts")
    case False
    with "1.prems" show ?thesis by (simp add: fetch_attempts.simps)
  next
    case True
    obtain q s1 where t: "fetch_try E cfg l allowMiss attempt s = (q, s1)"
      by (cases "fetch_try E cfg l allowMiss attempt s")
    note f = fetch_try_frame[OF t]
    show ?thesis
    proof (cases q)
      case None
      with True t "1.prems"
      have "fetch_attempts E cfg l allowMiss (Suc attempt) s1 = (r, s')"
        by (simp add: fetch_attempts.simps[of E cfg l allowMiss attempt])
      from "1.IH"[OF True t[symmetric] None this] f show ?thesis by simp
    next
      case (Some a)
      with True t "1.prems" have "s' = s1"
        by (simp add: fetch_attempts.simps[of E cfg l allowMiss attempt])
      with f show ?thesis by simp
    qed
  qed
qed

lemma parse_steps_inv:
  assumes tickP: "\<And>s. P s \<Longrightarrow> P (tick s)"
    and urlP: "\<And>f e s r s1. onU = Some f \<Longrightarrow> P s \<Longrightarrow> f e s = (r, s1) \<Longrightarrow> P s1"
    and smP: "\<And>f e s r s1. onS = Some f \<Longrightarrow> P s \<Longrightarrow> f e s = (r, s1) \<Longrightarrow> P s1"
    and "P s"
  shows "P (snd (parse_steps E onU onS fin steps s))"
  using \<open>P s\<close>
proof (induction steps arbitrary: s)
  case Nil
  then show ?case by (auto dest: tickP split: option.splits)
next
  case (Cons st rest)
  have t: "P (tick s)" using Cons.prems by (rule tickP)
  show ?case
  proof (cases "ctx_Err E (clock s)")
    case (Some c)
    with t show ?thesis by simp
  next
    case None
    show ?thesis
    proof (cases st)
      case OtherToken
      with None Cons.IH[OF t] show ?thesis by simp
    next
      case (URLElem d)
      show ?thesis
      proof (cases d)
        case (Inl e)
        with None URLElem t show ?thesis by simp
      next
        case (Inr entry)
        show ?thesis
        proof (cases onU)
          case None': None
          with None URLElem Inr Cons.IH[OF t] show ?thesis by simp
        next
          case (Some f)
          obtain r s1 where f: "f entry (tick s) = (r, s1)" by (cases "f entry (tick s)")
          have p1: "P s1" using urlP[OF Some t f] .
          show ?thesis
            using None URLElem Inr Some f p1 Cons.IH[OF p1] by (cases r) simp_all
        qed
      qed
    next
      case (SitemapElem d)
      show ?thesis
      proof (cases d)
        case (Inl e)
        with None SitemapElem t show ?thesis by simp
      next
        case (Inr entry)
        show ?thesis
        proof (cases onS)
          case None': None
          with None SitemapElem Inr Cons.IH[OF t] show ?thesis by simp
        next
          case (Some f)
          obtain r s1 where f: "f entry (tick s) = (r, s1)" by (cases "f entry (tick s)")
          have p1: "P s1" using smP[OF Some t f] .
          show ?thesis
            using None SitemapElem Inr Some f p1 Cons.IH[OF p1] by (cases r) simp_all
        qed
      qed
    qed
  qed
qed

lemma yield_item_frame:
  assumes "yield_item E cfg y cur entry l s = (r, s')"
  shows "fetched s' = fetched s \<and> seen s' = seen s \<and> queue s' = queue s
       \<and> sitemapCount s' = sitemapCount s \<and> cache s' = cache s"
  using assms
  by (auto simp: yield_item_def Let_def split: if_splits option.splits)

lemma onURL_frame:
  assumes "onURL E cfg y cur entry s = (r, s')"
  shows "fetched s' = fetched s \<and> seen s' = seen s \<and> queue s' = queue s
       \<and> sitemapCount s' = sitemapCount s"
proof (cases "resolveLocation E (loc cur) (entryLoc entry)")
  case (Inl e)
  with assms show ?thesis by (simp add: onURL_def)
next
  case (Inr l)
  show ?thesis
  proof (cases "IgnoreRobots cfg")
    case True
    with Inr assms have "yield_item E cfg y cur entry l s = (r, s')" by (simp add: onURL_def)
    from yield_item_frame[OF this] show ?thesis by simp
  next
    case False
    obtain a s1 where a: "allowedByRobots E cfg l s = (a, s1)"
      by (cases "allowedByRobots E cfg l s")
    note fa = allowedByRobots_frame[OF a]
    show ?thesis
    proof (cases a)
      case (Inl e)
      with Inr False a assms fa show ?thesis by (simp add: onURL_def)
    next
      case (Inr b)
      show ?thesis
      proof (cases b)
        case True
        with \<open>resolveLocation E (loc cur) (entryLoc entry) = Inr l\<close> False a Inr assms
        have "yield_item E cfg y cur entry l s1 = (r, s')" by (simp add: onURL_def)
        from yield_item_frame[OF this] fa show ?thesis by simp
      next
        case False': False
        with \<open>resolveLocation E (loc cur) (entryLoc entry) = Inr l\<close> False a Inr assms fa
        show ?thesis by (simp add: onURL_def)
      qed
    qed
  qed
qed

lemma onSitemap_frame:
  assumes "onSitemap E cur entry s = (r, s')"
  shows "fetched s' = fetched s \<and> seen s' = seen s \<and> sitemapCount s' = sitemapCount s
       \<and> yields s' = yields s \<and> urlCount s' = urlCount s \<and> cache s' = cache s"
  using assms by (auto simp: onSitemap_def split: sum.splits)

lemma parseSitemap_frame:
  assumes "parseSitemap E reader (Some (onURL E cfg y cur)) (Some (onSitemap E cur)) s = (r, s')"
  shows "fetched s' = fetched s \<and> seen s' = seen s \<and> sitemapCount s' = sitemapCount s"
proof -
  let ?P = "\<lambda>t. fetched t = fetched s \<and> seen t = seen s \<and> sitemapCount t = sitemapCount s"
  obtain steps fin where x: "xml_tokens E reader = (steps, fin)" by (cases "xml_tokens E reader")
  have "?P (snd (parse_steps E (Some (onURL E cfg y cur)) (Some (onSitemap E cur)) fin steps s))"
  proof (rule parse_steps_inv[where P = ?P])
    show "\<And>t. ?P t \<Longrightarrow> ?P (tick t)" by (simp add: tick_def)
    show "\<And>f e t r s1. Some (onURL E cfg y cur) = Some f \<Longrightarrow> ?P t \<Longrightarrow> f e t = (r, s1) \<Longrightarrow> ?P s1"
      using onURL_frame by fastforce
    show "\<And>f e t r s1. Some (onSitemap E cur) = Some f \<Longrightarrow> ?P t \<Longrightarrow> f e t = (r, s1) \<Longrightarrow> ?P s1"
      using onSitemap_frame by fastforce
    show "?P s" by simp
  qed
  with assms x show ?thesis by (simp add: parseSitemap_def)
qed

section \<open>The seen set\<close>

lemma walk_loop_inv:
  assumes "P s"
    and tickP: "\<And>s. P s \<Longrightarrow> P (tick s)"
    and popP: "\<And>s q. P s \<Longrightarrow> P (s\<lparr>queue := q\<rparr>)"
    and taskP: "\<And>s cur r s'. P s \<Longrightarrow> process_task E cfg y cur s = (r, s') \<Longrightarrow> P s'"
  shows "P (snd (walk_loop fuel E cfg y s))"
  using \<open>P s\<close>
proof (induction fuel arbitrary: s)
  case 0
  then show ?case by (simp split: list.splits)
next
  case (Suc k)
  show ?case
  proof (cases "queue s")
    case Nil
    with Suc.prems show ?thesis by simp
  next
    case (Cons cur rest)
    show ?thesis
    proof (cases "ctx_Err E (clock s)")
      case (Some c)
      with Cons tickP[OF Suc.prems] show ?thesis by simp
    next
      case None
      obtain r s1 where p: "process_task E cfg y cur ((tick s)\<lparr>queue := rest\<rparr>) = (r, s1)"
        by (cases "process_task E cfg y cur ((tick s)\<lparr>queue := rest\<rparr>)")
      have p1: "P s1" using taskP[OF popP[OF tickP[OF Suc.prems]] p] .
      show ?thesis
        using Cons None p p1 Suc.IH[OF p1]
        by (cases r) simp_all
    qed
  qed
qed

lemma fetchSitemap_frame:
  assumes "fetchSitemap E cfg l am s = (r, s')"
  shows "fetched s' = fetched s @ [l] \<and> yields s' = yields s \<and> cache s' = cache s
       \<and> queue s' = queue s \<and> seen s' = seen s \<and> sitemapCount s' = sitemapCount s
       \<and> urlCount s' = urlCount s"
  using fetch_attempts_frame[OF assms[unfolded fetchSitemap_def]] by simp

lemma fetch_and_parse_fetched:
  assumes "fetch_and_parse E cfg y cur s = (r, s')"
  shows "seen s' = seen s \<and> (fetched s' = fetched s \<or> fetched s' = fetched s @ [loc cur])"
proof (cases "0 < MaxSitemaps cfg \<and> MaxSitemaps cfg \<le> sitemapCount s")
  case True
  with assms show ?thesis by (auto simp: fetch_and_parse_def split: if_splits)
next
  case False
  obtain q s1 where f: "fetchSitemap E cfg (loc cur) (allowMissing cur)
                          (s\<lparr>sitemapCount := sitemapCount s + 1\<rparr>) = (q, s1)"
    by (cases "fetchSitemap E cfg (loc cur) (allowMissing cur) (s\<lparr>sitemapCount := sitemapCount s + 1\<rparr>)")
  note ff = fetchSitemap_frame[OF f]
  show ?thesis
  proof (cases q)
    case (Inl e)
    with False f assms ff show ?thesis by (auto simp: fetch_and_parse_def split: if_splits)
  next
    case (Inr ro)
    show ?thesis
    proof (cases ro)
      case None
      with False f Inr assms ff show ?thesis by (auto simp: fetch_and_parse_def split: if_splits)
    next
      case (Some reader)
      obtain pr s2 where p: "parseSitemap E reader (Some (onURL E cfg y cur))
                               (Some (onSitemap E cur)) s1 = (pr, s2)"
        by (cases "parseSitemap E reader (Some (onURL E cfg y cur)) (Some (onSitemap E cur)) s1")
      note pf = parseSitemap_frame[OF p]
      from False f Inr Some p assms have "s' = s2"
        by (cases pr) (auto simp: fetch_and_parse_def split: if_splits)
      with pf ff show ?thesis by simp
    qed
  qed
qed

lemma process_task_fetched:
  assumes "process_task E cfg y cur s = (r, s')"
  shows "(seen s' = seen s \<and> fetched s' = fetched s)
       \<or> (canonicalURLKey E (Some (loc cur)) \<notin> seen s
          \<and> seen s' = insert (canonicalURLKey E (Some (loc cur))) (seen s)
          \<and> (fetched s' = fetched s \<or> fetched s' = fetched s @ [loc cur]))"
proof (cases "0 < MaxDepth cfg \<and> MaxDepth cfg < depth cur")
  case True
  with assms show ?thesis by (auto simp: process_task_def split: if_splits)
next
  case False
  let ?key = "canonicalURLKey E (Some (loc cur))"
  show ?thesis
  proof (cases "?key \<in> seen s")
    case True
    with False assms show ?thesis by (auto simp: process_task_def Let_def split: if_splits)
  next
    case nk: False
    let ?s1 = "s\<lparr>seen := insert ?key (seen s)\<rparr>"
    show ?thesis
    proof (cases "IgnoreRobots cfg")
      case True
      with False nk assms have "fetch_and_parse E cfg y cur ?s1 = (r, s')"
        by (auto simp: process_task_def Let_def split: if_splits)
      from fetch_and_parse_fetched[OF this] nk show ?thesis by simp
    next
      case nr: False
      obtain a s2 where a: "allowedByRobots E cfg (loc cur) ?s1 = (a, s2)"
        by (cases "allowedByRobots E cfg (loc cur) ?s1")
      note fa = allowedByRobots_frame[OF a]
      show ?thesis
      proof (cases a)
        case (Inl e)
        with False nk nr a assms fa show ?thesis by (auto simp: process_task_def Let_def split: if_splits)
      next
        case (Inr b)
        show ?thesis
        proof (cases b)
          case True
          with False nk nr a Inr assms have "fetch_and_parse E cfg y cur s2 = (r, s')"
            by (auto simp: process_task_def Let_def split: if_splits)
          from fetch_and_parse_fetched[OF this] fa nk show ?thesis by simp
        next
          case nb: False
          with False nk nr a Inr assms fa show ?thesis by (auto simp: process_task_def Let_def split: if_splits)
        qed
      qed
    qed
  qed
qed

lemma process_task_visited:
  assumes "visited_inv E s" and "process_task E cfg y cur s = (r, s')"
  shows "visited_inv E s'"
proof -
  let ?k = "\<lambda>u. canonicalURLKey E (Some u)"
  from assms(1) have d: "distinct (map ?k (fetched s))"
    and sub: "\<forall>u\<in>set (fetched s). ?k u \<in> seen s"
    by (simp_all add: visited_inv_def)
  from process_task_fetched[OF assms(2)] show ?thesis
  proof
    assume "seen s' = seen s \<and> fetched s' = fetched s"
    with d sub show ?thesis by (simp add: visited_inv_def)
  next
    assume a: "?k (loc cur) \<notin> seen s
          \<and> seen s' = insert (?k (loc cur)) (seen s)
          \<and> (fetched s' = fetched s \<or> fetched s' = fetched s @ [loc cur])"
    then have nk: "?k (loc cur) \<notin> seen s"
      and s': "seen s' = insert (?k (loc cur)) (seen s)"
      and f': "fetched s' = fetched s \<or> fetched s' = fetched s @ [loc cur]"
      by simp_all
    have fresh: "?k (loc cur) \<notin> ?k ` set (fetched s)"
    proof
      assume "?k (loc cur) \<in> ?k ` set (fetched s)"
      then obtain u where "u \<in> set (fetched s)" "?k (loc cur) = ?k u" by auto
      with sub nk show False by auto
    qed
    from f' show ?thesis
    proof
      assume "fetched s' = fetched s"
      with d sub s' show ?thesis by (simp add: visited_inv_def)
    next
      assume "fetched s' = fetched s @ [loc cur]"
      with d sub s' fresh show ?thesis by (simp add: visited_inv_def)
    qed
  qed
qed

lemma seed_robots_frame:
  assumes "seed_robots E cfg i b = (r, s)"
  shows "fetched s = [] \<and> yields s = [] \<and> seen s = {} \<and> urlCount s = 0 \<and> sitemapCount s = 0
       \<and> queue s = []"
proof (cases "\<not> IgnoreRobots cfg \<and> \<not> isLikelySitemapURL (Some i)")
  case True
  obtain q s1 where g: "getRobots E cfg b init_state = (q, s1)"
    by (cases "getRobots E cfg b init_state")
  from True g assms have "s = s1" by (cases q) (simp_all add: seed_robots_def)
  with getRobots_frame[OF g] show ?thesis by (simp add: init_state_def)
next
  case False
  with assms have "s = init_state" by (auto simp: seed_robots_def)
  then show ?thesis by (simp add: init_state_def)
qed

lemma Walk_cases:
  "(\<exists>e. Walk E cfg w yo fuel = (Some (Some e), init_state) \<and> (\<forall>u. e \<noteq> ErrNoSitemaps u))
   \<or> (\<exists>y i b r s. yo = Some y \<and> normalizeInputURL E w = Inr (i, b) \<and> seed_robots E cfg i b = (r, s)
        \<and> initialSitemaps E i b r \<noteq> []
        \<and> Walk E cfg w yo fuel = walk_loop fuel E cfg y (s\<lparr>queue := initialSitemaps E i b r\<rparr>))
   \<or> (\<exists>y i b r s. yo = Some y \<and> normalizeInputURL E w = Inr (i, b) \<and> seed_robots E cfg i b = (r, s)
        \<and> initialSitemaps E i b r = []
        \<and> Walk E cfg w yo fuel = (Some (Some (ErrNoSitemaps b)), s))"
proof (cases yo)
  case None
  then show ?thesis by (simp add: Walk_def)
next
  case (Some y)
  show ?thesis
  proof (cases "normalizeInputURL E w")
    case (Inl e)
    then have "\<forall>u. e \<noteq> ErrNoSitemaps u"
      by (auto simp: normalizeInputURL_def Let_def split: option.splits if_splits)
    with Some Inl show ?thesis by (auto simp: Walk_def)
  next
    case (Inr p)
    obtain i b where p: "p = (i, b)" by (cases p)
    obtain r s where sr: "seed_robots E cfg i b = (r, s)" by (cases "seed_robots E cfg i b")
    show ?thesis
      using Some Inr p sr by (cases "initialSitemaps E i b r = []") (auto simp: Walk_def Let_def)
  qed
qed

text \<open>
  Claim C4. In one traversal each canonical sitemap location is fetched at most once:
  the locations handed to \<open>fetchSitemap\<close> by \<open>Walk\<close> have pairwise different
  canonical keys, whatever the environment, the options, the input and the fuel.
\<close>

theorem fetched_once:
  "distinct (map (\<lambda>u. canonicalURLKey E (Some u)) (fetched (snd (Walk E cfg w yo fuel))))"
proof -
  have loop: "visited_inv E (snd (walk_loop fuel E cfg y s))" if "visited_inv E s" for y s
  proof (rule walk_loop_inv[where P = "visited_inv E"])
    show "visited_inv E s" by (rule that)
    show "\<And>t. visited_inv E t \<Longrightarrow> visited_inv E (tick t)" by (simp add: visited_inv_def tick_def)
    show "\<And>t q. visited_inv E t \<Longrightarrow> visited_inv E (t\<lparr>queue := q\<rparr>)" by (simp add: visited_inv_def)
    show "\<And>t cur r t'. visited_inv E t \<Longrightarrow> process_task E cfg y cur t = (r, t') \<Longrightarrow> visited_inv E t'"
      by (rule process_task_visited)
  qed
  have "visited_inv E (snd (Walk E cfg w yo fuel))"
    using Walk_cases[of E cfg w yo fuel]
  proof (elim disjE exE conjE)
    fix e assume "Walk E cfg w yo fuel = (Some (Some e), init_state)"
    then show ?thesis by (simp add: visited_inv_def init_state_def)
  next
    fix y i b r s
    assume sr: "seed_robots E cfg i b = (r, s)"
      and w: "Walk E cfg w yo fuel = walk_loop fuel E cfg y (s\<lparr>queue := initialSitemaps E i b r\<rparr>)"
    have "visited_inv E (s\<lparr>queue := initialSitemaps E i b r\<rparr>)"
      using seed_robots_frame[OF sr] by (simp add: visited_inv_def)
    from loop[OF this] w show ?thesis by simp
  next
    fix y i b r s
    assume sr: "seed_robots E cfg i b = (r, s)"
      and w: "Walk E cfg w yo fuel = (Some (Some (ErrNoSitemaps b)), s)"
    with seed_robots_frame[OF sr] show ?thesis by (simp add: visited_inv_def)
  qed
  then show ?thesis by (simp add: visited_inv_def)
qed

section \<open>Rules for the three loops\<close>




section \<open>Errors of the traversal, seeding\<close>

lemma allowedByRobots_Inr:
  "allowedByRobots E cfg l s = (a, s') \<Longrightarrow> \<exists>b. a = Inr b"
  using allowedByRobots_no_error[of E cfg l s] by auto



lemma yield_item_err:
  assumes "yield_item E cfg y cur entry l s = (Some e, s')"
  shows "e = ErrMaxURLs (MaxURLs cfg) \<or> (\<exists>x. e = ErrYield x)"
  using assms by (auto simp: yield_item_def Let_def split: if_splits option.splits)

lemma onURL_yield_item:
  assumes "onURL E cfg y cur entry s = (r, s')"
  shows "(r = None \<and> yields s' = yields s \<and> urlCount s' = urlCount s)
       \<or> (\<exists>l s1. resolveLocation E (loc cur) (entryLoc entry) = Inr l
             \<and> yields s1 = yields s \<and> urlCount s1 = urlCount s
             \<and> yield_item E cfg y cur entry l s1 = (r, s'))"
proof (cases "resolveLocation E (loc cur) (entryLoc entry)")
  case (Inl e)
  with assms show ?thesis by (simp add: onURL_def)
next
  case (Inr l)
  show ?thesis
  proof (cases "IgnoreRobots cfg")
    case True
    with Inr assms show ?thesis by (auto simp: onURL_def)
  next
    case False
    obtain a s1 where a: "allowedByRobots E cfg l s = (a, s1)"
      by (cases "allowedByRobots E cfg l s")
    from allowedByRobots_Inr[OF a] obtain b where b: "a = Inr b" ..
    note fa = allowedByRobots_frame[OF a]
    show ?thesis
    proof (cases b)
      case True
      with Inr False a b assms have "yield_item E cfg y cur entry l s1 = (r, s')"
        by (simp add: onURL_def)
      with Inr fa show ?thesis by auto
    next
      case nb: False
      with Inr False a b assms fa show ?thesis by (simp add: onURL_def)
    qed
  qed
qed













section \<open>The items handed to the callback\<close>

lemma yield_item_yields:
  assumes "yield_item E cfg y cur entry l s = (r, s')"
  shows "yields s' = yields s
       \<or> (shouldInclude E cfg (Some l)
          \<and> yields s' = yields s @ [\<lparr>Loc = l,
                 LastMod = parseTimeValue E (entryLastMod entry),
                 ChangeFreq = TrimSpace (entryChangeFreq entry),
                 Priority = parsePriority E (entryPriority entry),
                 Sitemap = Some (loc cur)\<rparr>])"
  using assms
  by (auto simp: yield_item_def cloneURL_def Let_def split: if_splits option.splits)

lemma onURL_yields:
  assumes "onURL E cfg y cur entry s = (r, s')"
  shows "yields s' = yields s
       \<or> (\<exists>l. resolveLocation E (loc cur) (entryLoc entry) = Inr l
             \<and> shouldInclude E cfg (Some l)
             \<and> yields s' = yields s @ [\<lparr>Loc = l,
                 LastMod = parseTimeValue E (entryLastMod entry),
                 ChangeFreq = TrimSpace (entryChangeFreq entry),
                 Priority = parsePriority E (entryPriority entry),
                 Sitemap = Some (loc cur)\<rparr>])"
  using onURL_yield_item[OF assms]
proof
  assume "r = None \<and> yields s' = yields s \<and> urlCount s' = urlCount s"
  then show ?thesis by simp
next
  assume "\<exists>l s1. resolveLocation E (loc cur) (entryLoc entry) = Inr l
             \<and> yields s1 = yields s \<and> urlCount s1 = urlCount s
             \<and> yield_item E cfg y cur entry l s1 = (r, s')"
  then obtain l s1 where l: "resolveLocation E (loc cur) (entryLoc entry) = Inr l"
    and y1: "yields s1 = yields s" and yi: "yield_item E cfg y cur entry l s1 = (r, s')"
    by blast
  from yield_item_yields[OF yi] y1 l show ?thesis by auto
qed

lemma items_inv_grow:
  assumes "items_inv E cfg s" and "yields s' = yields s" and "set (fetched s) \<subseteq> set (fetched s')"
  shows "items_inv E cfg s'"
  using assms unfolding items_inv_def by fastforce

lemma onURL_items:
  assumes "items_inv E cfg s" and "loc cur \<in> set (fetched s)"
    and "onURL E cfg y cur entry s = (r, s')"
  shows "items_inv E cfg s'"
proof -
  have f: "fetched s' = fetched s" using onURL_frame[OF assms(3)] by simp
  from onURL_yields[OF assms(3)] show ?thesis
  proof
    assume "yields s' = yields s"
    with assms(1) f show ?thesis by (intro items_inv_grow[of E cfg s s']) simp_all
  next
    assume "\<exists>l. resolveLocation E (loc cur) (entryLoc entry) = Inr l
             \<and> shouldInclude E cfg (Some l)
             \<and> yields s' = yields s @ [\<lparr>Loc = l,
                 LastMod = parseTimeValue E (entryLastMod entry),
                 ChangeFreq = TrimSpace (entryChangeFreq entry),
                 Priority = parsePriority E (entryPriority entry),
                 Sitemap = Some (loc cur)\<rparr>]"
    then obtain l where l: "resolveLocation E (loc cur) (entryLoc entry) = Inr l"
      and inc: "shouldInclude E cfg (Some l)"
      and ys: "yields s' = yields s @ [\<lparr>Loc = l,
                 LastMod = parseTimeValue E (entryLastMod entry),
                 ChangeFreq = TrimSpace (entryChangeFreq entry),
                 Priority = parsePriority E (entryPriority entry),
                 Sitemap = Some (loc cur)\<rparr>]" by blast
    show ?thesis
      unfolding items_inv_def
    proof
      fix it assume "it \<in> set (yields s')"
      with ys have "it \<in> set (yields s) \<or> it = \<lparr>Loc = l,
                 LastMod = parseTimeValue E (entryLastMod entry),
                 ChangeFreq = TrimSpace (entryChangeFreq entry),
                 Priority = parsePriority E (entryPriority entry),
                 Sitemap = Some (loc cur)\<rparr>" by auto
      then show "shouldInclude E cfg (Some (Loc it))
        \<and> (\<exists>cur\<in>set (fetched s'). \<exists>raw.
              Sitemap it = Some cur \<and> resolveLocation E cur raw = Inr (Loc it))"
      proof
        assume "it \<in> set (yields s)"
        with assms(1) f show ?thesis unfolding items_inv_def by auto
      next
        assume it: "it = \<lparr>Loc = l,
                 LastMod = parseTimeValue E (entryLastMod entry),
                 ChangeFreq = TrimSpace (entryChangeFreq entry),
                 Priority = parsePriority E (entryPriority entry),
                 Sitemap = Some (loc cur)\<rparr>"
        have "\<exists>raw. Sitemap it = Some (loc cur) \<and> resolveLocation E (loc cur) raw = Inr (Loc it)"
          using it l by auto
        with assms(2) f inc it show ?thesis by auto
      qed
    qed
  qed
qed

lemma parseSitemap_items:
  assumes "items_inv E cfg s" and "loc cur \<in> set (fetched s)"
    and "parseSitemap E reader (Some (onURL E cfg y cur)) (Some (onSitemap E cur)) s = (r, s')"
  shows "items_inv E cfg s'"
proof -
  let ?P = "\<lambda>t. items_inv E cfg t \<and> loc cur \<in> set (fetched t)"
  obtain steps fin where x: "xml_tokens E reader = (steps, fin)" by (cases "xml_tokens E reader")
  have "?P (snd (parse_steps E (Some (onURL E cfg y cur)) (Some (onSitemap E cur)) fin steps s))"
  proof (rule parse_steps_inv[where P = ?P])
    show "\<And>t. ?P t \<Longrightarrow> ?P (tick t)" by (simp add: items_inv_def tick_def)
    show "\<And>f e t r s1. Some (onURL E cfg y cur) = Some f \<Longrightarrow> ?P t \<Longrightarrow> f e t = (r, s1) \<Longrightarrow> ?P s1"
    proof -
      fix f e t r s1
      assume "Some (onURL E cfg y cur) = Some f" and p: "?P t" and "f e t = (r, s1)"
      then have o: "onURL E cfg y cur e t = (r, s1)" by auto
      from onURL_items[OF _ _ o] p onURL_frame[OF o] show "?P s1" by simp
    qed
    show "\<And>f e t r s1. Some (onSitemap E cur) = Some f \<Longrightarrow> ?P t \<Longrightarrow> f e t = (r, s1) \<Longrightarrow> ?P s1"
    proof -
      fix f e t r s1
      assume "Some (onSitemap E cur) = Some f" and p: "?P t" and "f e t = (r, s1)"
      then have o: "onSitemap E cur e t = (r, s1)" by auto
      from onSitemap_frame[OF o] p show "?P s1" by (simp add: items_inv_def)
    qed
    show "?P s" using assms by simp
  qed
  with assms(3) x show ?thesis by (simp add: parseSitemap_def)
qed

lemma fetch_and_parse_items:
  assumes "items_inv E cfg s" and "fetch_and_parse E cfg y cur s = (r, s')"
  shows "items_inv E cfg s'"
proof (cases "0 < MaxSitemaps cfg \<and> MaxSitemaps cfg \<le> sitemapCount s")
  case True
  with assms show ?thesis by (auto simp: fetch_and_parse_def split: if_splits)
next
  case False
  obtain q s1 where f: "fetchSitemap E cfg (loc cur) (allowMissing cur)
                          (s\<lparr>sitemapCount := sitemapCount s + 1\<rparr>) = (q, s1)"
    by (cases "fetchSitemap E cfg (loc cur) (allowMissing cur) (s\<lparr>sitemapCount := sitemapCount s + 1\<rparr>)")
  note ff = fetchSitemap_frame[OF f]
  have i1: "items_inv E cfg s1"
    using assms(1) ff by (intro items_inv_grow[of E cfg s s1]) auto
  have c1: "loc cur \<in> set (fetched s1)" using ff by simp
  show ?thesis
  proof (cases q)
    case (Inl e)
    with False f assms(2) i1 show ?thesis by (auto simp: fetch_and_parse_def split: if_splits)
  next
    case (Inr ro)
    show ?thesis
    proof (cases ro)
      case None
      with False f Inr assms(2) i1 show ?thesis
        by (auto simp: fetch_and_parse_def split: if_splits)
    next
      case (Some reader)
      obtain pr s2 where p: "parseSitemap E reader (Some (onURL E cfg y cur))
                               (Some (onSitemap E cur)) s1 = (pr, s2)"
        by (cases "parseSitemap E reader (Some (onURL E cfg y cur)) (Some (onSitemap E cur)) s1")
      from False f Inr Some p assms(2) have "s' = s2"
        by (cases pr) (auto simp: fetch_and_parse_def split: if_splits)
      with parseSitemap_items[OF i1 c1 p] show ?thesis by simp
    qed
  qed
qed

lemma process_task_items:
  assumes "items_inv E cfg s" and "process_task E cfg y cur s = (r, s')"
  shows "items_inv E cfg s'"
proof -
  have "s' = s \<or> (\<exists>t. yields t = yields s \<and> fetched t = fetched s
                      \<and> (s' = t \<or> fetch_and_parse E cfg y cur t = (r, s')))"
    using assms(2)
    by (auto simp: process_task_def Let_def split: if_splits prod.splits sum.splits
             dest!: allowedByRobots_frame)
  then show ?thesis
  proof
    assume "s' = s" with assms(1) show ?thesis by simp
  next
    assume "\<exists>t. yields t = yields s \<and> fetched t = fetched s
                \<and> (s' = t \<or> fetch_and_parse E cfg y cur t = (r, s'))"
    then obtain t where t: "yields t = yields s" "fetched t = fetched s"
      and d: "s' = t \<or> fetch_and_parse E cfg y cur t = (r, s')" by blast
    have it: "items_inv E cfg t" using assms(1) t by (intro items_inv_grow[of E cfg s t]) auto
    from d show ?thesis
    proof
      assume "s' = t" with it show ?thesis by simp
    next
      assume "fetch_and_parse E cfg y cur t = (r, s')"
      from fetch_and_parse_items[OF it this] show ?thesis .
    qed
  qed
qed

lemma Walk_items: "items_inv E cfg (snd (Walk E cfg w yo fuel))"
proof -
  have loop: "items_inv E cfg (snd (walk_loop fuel E cfg y s))" if "items_inv E cfg s" for y s
  proof (rule walk_loop_inv[where P = "items_inv E cfg"])
    show "items_inv E cfg s" by (rule that)
    show "\<And>t. items_inv E cfg t \<Longrightarrow> items_inv E cfg (tick t)" by (simp add: items_inv_def tick_def)
    show "\<And>t q. items_inv E cfg t \<Longrightarrow> items_inv E cfg (t\<lparr>queue := q\<rparr>)" by (simp add: items_inv_def)
    show "\<And>t cur r t'. items_inv E cfg t \<Longrightarrow> process_task E cfg y cur t = (r, t') \<Longrightarrow> items_inv E cfg t'"
      by (rule process_task_items)
  qed
  show ?thesis
    using Walk_cases[of E cfg w yo fuel]
  proof (elim disjE exE conjE)
    fix e assume "Walk E cfg w yo fuel = (Some (Some e), init_state)"
    then show ?thesis by (simp add: items_inv_def init_state_def)
  next
    fix y i b r s
    assume sr: "seed_robots E cfg i b = (r, s)"
      and w: "Walk E cfg w yo fuel = walk_loop fuel E cfg y (s\<lparr>queue := initialSitemaps E i b r\<rparr>)"
    have "items_inv E cfg (s\<lparr>queue := initialSitemaps E i b r\<rparr>)"
      using seed_robots_frame[OF sr] by (simp add: items_inv_def)
    from loop[OF this] w show ?thesis by simp
  next
    fix y i b r s
    assume sr: "seed_robots E cfg i b = (r, s)"
      and w: "Walk E cfg w yo fuel = (Some (Some (ErrNoSitemaps b)), s)"
    with seed_robots_frame[OF sr] show ?thesis by (simp add: items_inv_def)
  qed
qed

section \<open>Running the example, filters, field parsing\<close>

lemmas example_defs =
  example_env_def example_opts_def New_def https_url_def zero_url_def yield_ok_def
  ex_String_def ex_Parse_def ex_ResolveReference_def ex_xml_tokens_def ex_gzip_NewReader_def
  ex_robots_FromResponse_def ex_client_Do_def ok_response_def url_entry_def
  keep_skip_doc_def keep_skip_gz_def page_doc_def keep_doc_def index_doc_def robots_body_def
  bytes_of_def defaultUserAgent_def

lemmas model_defs =
  Walk_def normalizeInputURL_def seed_robots_def initialSitemaps_def isLikelySitemapURL_def
  ToLower_def lower_char_def HasSuffix_def cloneURL_def init_state_def tick_def
  process_task_def canonicalURLKey_def allowedByRobots_def getRobots_def robots_key_def
  newRequest_def empty_rules_def fetch_and_parse_def fetchSitemap_def fetch_try_def
  wrapReader_def Peek_def parseSitemap_def onURL_def onSitemap_def yield_item_def
  resolveLocation_def TrimSpace_def space_runes_def IsAbs_def shouldInclude_def
  parseTimeValue_def parsePriority_def classify_parse_error_def Let_def

lemma walk_loop_Suc:
  "walk_loop (Suc k) E cfg y s =
     (case queue s of
        [] \<Rightarrow> (Some None, s)
      | current # rest \<Rightarrow>
          (case ctx_Err E (clock s) of
             Some c \<Rightarrow> (Some (Some (CtxErr c)), tick s)
           | None \<Rightarrow>
               (case process_task E cfg y current ((tick s)\<lparr>queue := rest\<rparr>) of
                  (Some err, s1) \<Rightarrow> (Some (Some err), s1)
                | (None, s1) \<Rightarrow> walk_loop k E cfg y s1)))"
  by (simp split: list.splits)

lemma walk_loop_Nil: "queue s = [] \<Longrightarrow> walk_loop k E cfg y s = (Some None, s)"
  by (cases k) simp_all

lemma fetch_attempts_unfold:
  "attempt \<le> maxRetryAttempts \<Longrightarrow>
   fetch_attempts E cfg l am attempt s =
     (case fetch_try E cfg l am attempt s of
        (Some r, s1) \<Rightarrow> (r, s1)
      | (None, s1) \<Rightarrow> fetch_attempts E cfg l am (Suc attempt) s1)"
  by (simp add: fetch_attempts.simps[of E cfg l am attempt])

lemmas run_defs = example_defs model_defs walk_loop_Suc walk_loop_Nil fetch_attempts_unfold

lemma ex_walk_keep_skip:
  "map (\<lambda>it. Path (Loc it)) (yields (snd (Walk example_env keep_skip_opts
      (Some (https_url ''example.com'' ''/sitemap.xml'')) (Some yield_ok) (Suc 0)))) = [''/keep'']"
  by (simp add: keep_skip_opts_def run_defs)

text \<open>
  Claim C8. A candidate URL is admitted exactly when the include list is empty or one
  of its patterns matches, and no exclude pattern matches; exclusion is tested after
  inclusion and vetoes it. Every item a traversal hands to the callback was admitted.
\<close>

theorem filter_admits:
  "(shouldInclude E cfg (Some u) \<longleftrightarrow>
      (Include cfg = [] \<or> (\<exists>re\<in>set (Include cfg). \<exists>r. re = Some r \<and> r (url_String E u)))
      \<and> (\<forall>re\<in>set (Exclude cfg). \<forall>r. re = Some r \<longrightarrow> \<not> r (url_String E u)))
   \<and> (\<forall>it\<in>set (yields (snd (Walk E cfg w yo fuel))). shouldInclude E cfg (Some (Loc it)))"
  using shouldInclude_filter[of E cfg u] Walk_items[of E cfg w yo fuel]
  unfolding items_inv_def by blast

theorem filter_admits_witness:
  "shouldInclude example_env keep_skip_opts (Some (https_url ''example.com'' ''/keep''))
   \<and> \<not> shouldInclude example_env keep_skip_opts (Some (https_url ''example.com'' ''/skip''))
   \<and> \<not> shouldInclude example_env keep_skip_opts (Some (https_url ''example.com'' ''/keep/skip''))
   \<and> map (\<lambda>it. Path (Loc it)) (yields (snd (Walk example_env keep_skip_opts
        (Some (https_url ''example.com'' ''/sitemap.xml'')) (Some yield_ok) (Suc 0)))) = [''/keep'']"
proof -
  have k: "shouldInclude example_env keep_skip_opts (Some (https_url ''example.com'' ''/keep''))"
    using filter_admits[of example_env keep_skip_opts "https_url ''example.com'' ''/keep''"]
    by (simp add: keep_skip_opts_def example_defs)
  have s: "\<not> shouldInclude example_env keep_skip_opts (Some (https_url ''example.com'' ''/skip''))"
    using filter_admits[of example_env keep_skip_opts "https_url ''example.com'' ''/skip''"]
    by (simp add: keep_skip_opts_def example_defs)
  have ks: "\<not> shouldInclude example_env keep_skip_opts
               (Some (https_url ''example.com'' ''/keep/skip''))"
    using filter_admits[of example_env keep_skip_opts "https_url ''example.com'' ''/keep/skip''"]
    by (simp add: keep_skip_opts_def example_defs)
  from k s ks ex_walk_keep_skip show ?thesis by simp
qed

text \<open>
  Claim C9. The last-modified text is tried against six layouts in order (RFC 3339
  with and without fractional seconds, a bare date, a bare date-time, RFC 1123 with a
  named and with a numeric zone) and the first that parses gives the timestamp; when
  the trimmed text is empty or no layout parses, the timestamp is unset. The priority
  is what the floating-point parser returns for the trimmed text, with no range check,
  and unset when it fails. Neither failure is an error: the only errors of the URL
  callback after resolution are the URL limit and a failure of the caller's callback.
\<close>

theorem field_parsing:
  "(parseTimeValue E v = Some t \<longleftrightarrow>
      TrimSpace v \<noteq> []
      \<and> (\<exists>i<length layouts. time_Parse E (layouts ! i) (TrimSpace v) = Some t
            \<and> (\<forall>j<i. time_Parse E (layouts ! j) (TrimSpace v) = None)))
   \<and> (parseTimeValue E v = None \<longleftrightarrow>
        TrimSpace v = [] \<or> (\<forall>l\<in>set layouts. time_Parse E l (TrimSpace v) = None))
   \<and> layouts = [''2006-01-02T15:04:05.999999999Z07:00'', ''2006-01-02T15:04:05Z07:00'',
                ''2006-01-02'', ''2006-01-02T15:04:05'', ''Mon, 02 Jan 2006 15:04:05 MST'',
                ''Mon, 02 Jan 2006 15:04:05 -0700'']
   \<and> parsePriority E v = (if TrimSpace v = [] then None else ParseFloat E (TrimSpace v))
   \<and> (\<forall>e s'. yield_item E cfg y cur entry l s = (Some e, s')
         \<longrightarrow> e = ErrMaxURLs (MaxURLs cfg) \<or> (\<exists>x. e = ErrYield x))"
proof -
  have a: "parseTimeValue E v = Some t \<longleftrightarrow>
      TrimSpace v \<noteq> []
      \<and> (\<exists>i<length layouts. time_Parse E (layouts ! i) (TrimSpace v) = Some t
            \<and> (\<forall>j<i. time_Parse E (layouts ! j) (TrimSpace v) = None))"
    using try_layouts_Some[of E layouts "TrimSpace v" t] by (simp add: parseTimeValue_def Let_def)
  have b: "parseTimeValue E v = None \<longleftrightarrow>
        TrimSpace v = [] \<or> (\<forall>l\<in>set layouts. time_Parse E l (TrimSpace v) = None)"
    using try_layouts_None[of E layouts "TrimSpace v"] by (simp add: parseTimeValue_def Let_def)
  have c: "layouts = [''2006-01-02T15:04:05.999999999Z07:00'', ''2006-01-02T15:04:05Z07:00'',
                ''2006-01-02'', ''2006-01-02T15:04:05'', ''Mon, 02 Jan 2006 15:04:05 MST'',
                ''Mon, 02 Jan 2006 15:04:05 -0700'']"
    by (simp add: layouts_def RFC3339Nano_def RFC3339_def RFC1123_def RFC1123Z_def)
  have d: "parsePriority E v = (if TrimSpace v = [] then None else ParseFloat E (TrimSpace v))"
    by (simp add: parsePriority_def Let_def split: option.splits)
  have e: "\<forall>e s'. yield_item E cfg y cur entry l s = (Some e, s')
         \<longrightarrow> e = ErrMaxURLs (MaxURLs cfg) \<or> (\<exists>x. e = ErrYield x)"
    using yield_item_err by blast
  from a b c d e show ?thesis by blast
qed

theorem field_parsing_witness:
  "parseTimeValue example_env '' 2024-01-02 '' = Some 1704153600000000000
   \<and> parseTimeValue example_env ''yesterday'' = None
   \<and> parseTimeValue example_env ''   '' = None
   \<and> parsePriority example_env ''0.7'' = Some 0x3FE6666666666666
   \<and> parsePriority example_env ''high'' = None"
proof -
  have t: "TrimSpace '' 2024-01-02 '' = ''2024-01-02''" "TrimSpace ''yesterday'' = ''yesterday''"
    "TrimSpace ''   '' = []" "TrimSpace ''0.7'' = ''0.7''" "TrimSpace ''high'' = ''high''"
    by (simp_all add: TrimSpace_def space_runes_def)
  have l2: "layouts ! 2 = ''2006-01-02''" "(2::nat) < length layouts"
    by (simp_all add: layouts_def)
  have "\<forall>j<2. time_Parse example_env (layouts ! j) ''2024-01-02'' = None"
  proof (intro allI impI)
    fix j :: nat assume "j < 2"
    then have "j = 0 \<or> j = 1" by auto
    then show "time_Parse example_env (layouts ! j) ''2024-01-02'' = None"
      by (auto simp: example_env_def layouts_def RFC3339Nano_def RFC3339_def)
  qed
  moreover have "time_Parse example_env (layouts ! 2) ''2024-01-02'' = Some 1704153600000000000"
    by (simp add: l2 example_env_def)
  ultimately have a: "parseTimeValue example_env '' 2024-01-02 '' = Some 1704153600000000000"
    using field_parsing[of example_env "'' 2024-01-02 ''" 1704153600000000000] l2(2) t(1)
    by auto
  have b: "parseTimeValue example_env ''yesterday'' = None"
    using field_parsing[of example_env "''yesterday''"] t(2) by (simp add: example_env_def)
  have c: "parseTimeValue example_env ''   '' = None"
    using field_parsing[of example_env "''   ''"] t(3) by simp
  have d: "parsePriority example_env ''0.7'' = Some 0x3FE6666666666666"
    using field_parsing[of example_env "''0.7''"] t(4) by (simp add: example_env_def)
  have e: "parsePriority example_env ''high'' = None"
    using field_parsing[of example_env "''high''"] t(5) by (simp add: example_env_def)
  from a b c d e show ?thesis by simp
qed

section \<open>Location resolution, the robots cache\<close>




lemma getRobots_keeps:
  assumes "cache s k = Some r" and "getRobots E cfg base s = (x, s')"
  shows "cache s' k = Some r"
  using assms
  by (auto simp: getRobots_def Let_def split: option.splits sum.splits if_splits)

lemma allowedByRobots_keeps:
  assumes "cache s k = Some r" and "allowedByRobots E cfg l s = (x, s')"
  shows "cache s' k = Some r"
proof -
  obtain r0 where "getRobots E cfg (zero_url\<lparr>Scheme := Scheme l, Host := Host l\<rparr>) s = (r0, s')"
    using assms(2)
    by (auto simp: allowedByRobots_def Let_def split: prod.splits sum.splits option.splits)
  with assms(1) show ?thesis by (rule getRobots_keeps)
qed

lemma onURL_keeps:
  assumes "cache s k = Some r" and "onURL E cfg y cur entry s = (x, s')"
  shows "cache s' k = Some r"
proof -
  have "s' = s \<or> (\<exists>l a t. allowedByRobots E cfg l s = (a, t)
                     \<and> (s' = t \<or> (\<exists>l. yield_item E cfg y cur entry l t = (x, s'))))
        \<or> (\<exists>l. yield_item E cfg y cur entry l s = (x, s'))"
    using assms(2)
    by (auto simp: onURL_def split: sum.splits if_splits prod.splits)
  then show ?thesis
    using assms(1) allowedByRobots_keeps[OF assms(1)] yield_item_frame
    by (metis (no_types, lifting))
qed

lemma parseSitemap_keeps:
  assumes "cache s k = Some r"
    and "parseSitemap E reader (Some (onURL E cfg y cur)) (Some (onSitemap E cur)) s = (x, s')"
  shows "cache s' k = Some r"
proof -
  let ?P = "\<lambda>t. cache t k = Some r"
  obtain steps fin where x: "xml_tokens E reader = (steps, fin)" by (cases "xml_tokens E reader")
  have "?P (snd (parse_steps E (Some (onURL E cfg y cur)) (Some (onSitemap E cur)) fin steps s))"
  proof (rule parse_steps_inv[where P = ?P])
    show "\<And>t. ?P t \<Longrightarrow> ?P (tick t)" by (simp add: tick_def)
    show "\<And>f e t q s1. Some (onURL E cfg y cur) = Some f \<Longrightarrow> ?P t \<Longrightarrow> f e t = (q, s1) \<Longrightarrow> ?P s1"
    proof -
      fix f e t q s1
      assume "Some (onURL E cfg y cur) = Some f" and p: "?P t" and "f e t = (q, s1)"
      then have o: "onURL E cfg y cur e t = (q, s1)" by auto
      from onURL_keeps[OF p o] show "?P s1" .
    qed
    show "\<And>f e t q s1. Some (onSitemap E cur) = Some f \<Longrightarrow> ?P t \<Longrightarrow> f e t = (q, s1) \<Longrightarrow> ?P s1"
    proof -
      fix f e t q s1
      assume "Some (onSitemap E cur) = Some f" and p: "?P t" and "f e t = (q, s1)"
      then have o: "onSitemap E cur e t = (q, s1)" by auto
      from onSitemap_frame[OF o] p show "?P s1" by simp
    qed
    show "?P s" by (rule assms(1))
  qed
  with assms(2) x show ?thesis by (simp add: parseSitemap_def)
qed

lemma fetch_and_parse_keeps:
  assumes "cache s k = Some r" and "fetch_and_parse E cfg y cur s = (x, s')"
  shows "cache s' k = Some r"
proof (cases "0 < MaxSitemaps cfg \<and> MaxSitemaps cfg \<le> sitemapCount s")
  case True
  with assms show ?thesis by (auto simp: fetch_and_parse_def split: if_splits)
next
  case False
  obtain q s1 where f: "fetchSitemap E cfg (loc cur) (allowMissing cur)
                          (s\<lparr>sitemapCount := sitemapCount s + 1\<rparr>) = (q, s1)"
    by (cases "fetchSitemap E cfg (loc cur) (allowMissing cur) (s\<lparr>sitemapCount := sitemapCount s + 1\<rparr>)")
  have c1: "cache s1 k = Some r" using fetchSitemap_frame[OF f] assms(1) by simp
  show ?thesis
  proof (cases q)
    case (Inl e)
    with False f assms(2) c1 show ?thesis by (auto simp: fetch_and_parse_def split: if_splits)
  next
    case (Inr ro)
    show ?thesis
    proof (cases ro)
      case None
      with False f Inr assms(2) c1 show ?thesis
        by (auto simp: fetch_and_parse_def split: if_splits)
    next
      case (Some reader)
      obtain pr s2 where p: "parseSitemap E reader (Some (onURL E cfg y cur))
                               (Some (onSitemap E cur)) s1 = (pr, s2)"
        by (cases "parseSitemap E reader (Some (onURL E cfg y cur)) (Some (onSitemap E cur)) s1")
      from False f Inr Some p assms(2) have "s' = s2"
        by (cases pr) (auto simp: fetch_and_parse_def split: if_splits)
      with parseSitemap_keeps[OF c1 p] show ?thesis by simp
    qed
  qed
qed

lemma process_task_keeps:
  assumes "cache s k = Some r" and "process_task E cfg y cur s = (x, s')"
  shows "cache s' k = Some r"
proof (cases "0 < MaxDepth cfg \<and> MaxDepth cfg < depth cur")
  case True
  with assms show ?thesis by (auto simp: process_task_def split: if_splits)
next
  case False
  let ?key = "canonicalURLKey E (Some (loc cur))"
  show ?thesis
  proof (cases "?key \<in> seen s")
    case True
    with False assms show ?thesis by (auto simp: process_task_def Let_def split: if_splits)
  next
    case nk: False
    let ?s1 = "s\<lparr>seen := insert ?key (seen s)\<rparr>"
    have c1: "cache ?s1 k = Some r" using assms(1) by simp
    show ?thesis
    proof (cases "IgnoreRobots cfg")
      case True
      with False nk assms(2) have "fetch_and_parse E cfg y cur ?s1 = (x, s')"
        by (auto simp: process_task_def Let_def split: if_splits)
      from fetch_and_parse_keeps[OF c1 this] show ?thesis .
    next
      case nr: False
      obtain a s2 where a: "allowedByRobots E cfg (loc cur) ?s1 = (a, s2)"
        by (cases "allowedByRobots E cfg (loc cur) ?s1")
      have c2: "cache s2 k = Some r" by (rule allowedByRobots_keeps[OF c1 a])
      show ?thesis
      proof (cases a)
        case (Inl e)
        with False nk nr a assms(2) c2 show ?thesis
          by (auto simp: process_task_def Let_def split: if_splits)
      next
        case (Inr b)
        show ?thesis
        proof (cases b)
          case True
          with False nk nr a Inr assms(2) have "fetch_and_parse E cfg y cur s2 = (x, s')"
            by (auto simp: process_task_def Let_def split: if_splits)
          from fetch_and_parse_keeps[OF c2 this] show ?thesis .
        next
          case nb: False
          with False nk nr a Inr assms(2) c2 show ?thesis
            by (auto simp: process_task_def Let_def split: if_splits)
        qed
      qed
    qed
  qed
qed

lemma walk_loop_keeps:
  assumes "cache s k = Some r"
  shows "cache (snd (walk_loop fuel E cfg y s)) k = Some r"
proof (rule walk_loop_inv[where P = "\<lambda>t. cache t k = Some r"])
  show "cache s k = Some r" by (rule assms)
  show "\<And>t. cache t k = Some r \<Longrightarrow> cache (tick t) k = Some r" by (simp add: tick_def)
  show "\<And>t q. cache t k = Some r \<Longrightarrow> cache (t\<lparr>queue := q\<rparr>) k = Some r" by simp
  show "\<And>t cur q t'. cache t k = Some r \<Longrightarrow> process_task E cfg y cur t = (q, t')
          \<Longrightarrow> cache t' k = Some r"
    by (rule process_task_keeps)
qed

text \<open>
  Claim C7. When the request for robots.txt fails, or the answer is not 200, or its
  content does not parse, \<open>getRobots\<close> returns the empty rule set (no group, no
  sitemaps) instead of an error and stores it in the cache, where it stays for the
  rest of the traversal, so a later call answers from the cache without a request.
  \<open>allowedByRobots\<close> never returns an error, and it allows the location whenever the
  rules have no group or \<open>getRobots\<close> itself fails.
\<close>

theorem robots_allow_all:
  "(cache s (robots_key base) = None
      \<and> newRequest E cfg (ResolveReference E base (zero_url\<lparr>Path := ''/robots.txt''\<rparr>)) = Inr req
      \<and> ((\<exists>e. client_Do E (clock s) req = Inl e)
          \<or> (\<exists>resp. client_Do E (clock s) req = Inr resp
                \<and> (StatusCode resp \<noteq> 200 \<or> (\<exists>e. robots_FromResponse E resp = Inl e))))
    \<longrightarrow> (\<exists>s'. getRobots E cfg base s = (Inr empty_rules, s')
              \<and> requests s' = requests s @ [req]
              \<and> cache s' (robots_key base) = Some empty_rules
              \<and> getRobots E cfg base s' = (Inr empty_rules, s')
              \<and> (\<forall>fuel y. cache (snd (walk_loop fuel E cfg y s')) (robots_key base)
                            = Some empty_rules)))
   \<and> group empty_rules = None \<and> sitemaps empty_rules = []
   \<and> (\<exists>b t. allowedByRobots E cfg l s = (Inr b, t))
   \<and> (\<forall>r t. getRobots E cfg (zero_url\<lparr>Scheme := Scheme l, Host := Host l\<rparr>) s = (r, t)
             \<and> (\<forall>rules. r = Inr rules \<longrightarrow> group rules = None)
         \<longrightarrow> allowedByRobots E cfg l s = (Inr True, t))"
proof -
  have a: "\<exists>s'. getRobots E cfg base s = (Inr empty_rules, s')
              \<and> requests s' = requests s @ [req]
              \<and> cache s' (robots_key base) = Some empty_rules
              \<and> getRobots E cfg base s' = (Inr empty_rules, s')
              \<and> (\<forall>fuel y. cache (snd (walk_loop fuel E cfg y s')) (robots_key base)
                            = Some empty_rules)"
    if h: "cache s (robots_key base) = None"
      "newRequest E cfg (ResolveReference E base (zero_url\<lparr>Path := ''/robots.txt''\<rparr>)) = Inr req"
      "(\<exists>e. client_Do E (clock s) req = Inl e)
          \<or> (\<exists>resp. client_Do E (clock s) req = Inr resp
                \<and> (StatusCode resp \<noteq> 200 \<or> (\<exists>e. robots_FromResponse E resp = Inl e)))"
  proof -
    let ?s' = "s\<lparr>clock := Suc (clock s), requests := requests s @ [req],
                 cache := (cache s)(robots_key base \<mapsto> empty_rules)\<rparr>"
    have g: "getRobots E cfg base s = (Inr empty_rules, ?s')"
      by (rule getRobots_failure[OF h])
    have c: "cache ?s' (robots_key base) = Some empty_rules" by simp
    have g2: "getRobots E cfg base ?s' = (Inr empty_rules, ?s')"
      by (rule getRobots_cached[OF c])
    have w: "\<forall>fuel y. cache (snd (walk_loop fuel E cfg y ?s')) (robots_key base) = Some empty_rules"
      using walk_loop_keeps[OF c] by blast
    have "requests ?s' = requests s @ [req]" by simp
    with g c g2 w show ?thesis by blast
  qed
  have b: "group empty_rules = None \<and> sitemaps empty_rules = []" by (simp add: empty_rules_def)
  have c: "\<exists>b t. allowedByRobots E cfg l s = (Inr b, t)" by (rule allowedByRobots_no_error)
  have d: "\<forall>r t. getRobots E cfg (zero_url\<lparr>Scheme := Scheme l, Host := Host l\<rparr>) s = (r, t)
             \<and> (\<forall>rules. r = Inr rules \<longrightarrow> group rules = None)
         \<longrightarrow> allowedByRobots E cfg l s = (Inr True, t)"
    using allowedByRobots_no_group by blast
  from a b c d show ?thesis by blast
qed

theorem robots_allow_all_witness:
  "cache init_state (robots_key (https_url ''example.com'' [])) = None
   \<and> fst (getRobots example_env example_opts (https_url ''example.com'' []) init_state)
       = Inr empty_rules
   \<and> map req_url (requests (snd (getRobots example_env example_opts
                                   (https_url ''example.com'' []) init_state)))
       = [''https://example.com/robots.txt'']
   \<and> fst (allowedByRobots example_env example_opts (https_url ''example.com'' ''/sitemap.xml'')
            init_state) = Inr True"
proof -
  let ?req = "\<lparr>req_url = ''https://example.com/robots.txt'', req_user_agent = defaultUserAgent,
               req_timeout = None\<rparr>"
  let ?base = "https_url ''example.com'' []"
  let ?l = "https_url ''example.com'' ''/sitemap.xml''"
  note inst = robots_allow_all[of init_state ?base example_env example_opts ?req ?l]
  have n: "cache init_state (robots_key ?base) = None"
    by (simp add: init_state_def)
  have q: "newRequest example_env example_opts
             (ResolveReference example_env ?base (zero_url\<lparr>Path := ''/robots.txt''\<rparr>)) = Inr ?req"
    by (simp add: newRequest_def example_defs)
  have f: "(\<exists>e. client_Do example_env (clock init_state) ?req = Inl e)
         \<or> (\<exists>resp. client_Do example_env (clock init_state) ?req = Inr resp
             \<and> (StatusCode resp \<noteq> 200 \<or> (\<exists>e. robots_FromResponse example_env resp = Inl e)))"
    by (simp add: example_defs init_state_def)
  from inst[THEN conjunct1, rule_format, OF conjI[OF n conjI[OF q f]]]
  obtain s' where g: "getRobots example_env example_opts ?base init_state = (Inr empty_rules, s')"
    and r: "requests s' = requests init_state @ [?req]"
    by blast
  have b: "zero_url\<lparr>Scheme := Scheme ?l, Host := Host ?l\<rparr> = ?base"
    by (simp add: https_url_def zero_url_def)
  have ng: "\<forall>rules. (Inr empty_rules :: error + robotsRules) = Inr rules \<longrightarrow> group rules = None"
    by (simp add: empty_rules_def)
  have al: "allowedByRobots example_env example_opts ?l init_state = (Inr True, s')"
    by (rule inst[THEN conjunct2, THEN conjunct2, THEN conjunct2, THEN conjunct2, rule_format,
                 OF conjI[OF g[folded b] ng]])
  have rq: "map req_url (requests s') = [''https://example.com/robots.txt'']"
    by (simp add: r init_state_def)
  from n g rq al show ?thesis by simp
qed

section \<open>Bodies that decode to the same stream\<close>

lemmas case_congs =
  sum.case_cong option.case_cong prod.case_cong if_cong list.case_cong xml_step.case_cong

lemma try_layouts_env: "try_layouts (E\<lparr>client_Do := d\<rparr>) ls v = try_layouts E ls v"
  by (induction ls) (simp_all cong: case_congs)

lemma robots_sitemaps_env: "robots_sitemaps (E\<lparr>client_Do := d\<rparr>) base ls = robots_sitemaps E base ls"
  by (induction ls) (simp_all cong: case_congs)

lemma wrapReader_env: "wrapReader (E\<lparr>client_Do := d\<rparr>) resp = wrapReader E resp"
  by (simp add: wrapReader_def Let_def cong: case_congs)

lemma retryAfterDelay_env: "retryAfterDelay (E\<lparr>client_Do := d\<rparr>) now resp = retryAfterDelay E now resp"
  by (simp add: retryAfterDelay_def Let_def cong: case_congs)

lemma resolveLocation_env: "resolveLocation (E\<lparr>client_Do := d\<rparr>) base l = resolveLocation E base l"
  by (simp add: resolveLocation_def Let_def cong: case_congs)

lemma newRequest_env: "newRequest (E\<lparr>client_Do := d\<rparr>) cfg u = newRequest E cfg u"
  by (simp add: newRequest_def Let_def cong: case_congs)

lemma sleepWithContext_env: "sleepWithContext (E\<lparr>client_Do := d\<rparr>) dl t = sleepWithContext E dl t"
  by (simp add: sleepWithContext_def)

lemma same_up_to_encoding_Inl:
  assumes "same_up_to_encoding E d" and "client_Do E t req = Inl e"
  shows "d t req = Inl e"
proof -
  from assms(1) have "case client_Do E t req of
           Inl e \<Rightarrow> d t req = Inl e
         | Inr r \<Rightarrow>
             (\<exists>r'. d t req = Inr r'
                \<and> StatusCode r' = StatusCode r \<and> Status r' = Status r
                \<and> HeaderGet r' ''Retry-After'' = HeaderGet r ''Retry-After''
                \<and> robots_FromResponse E r' = robots_FromResponse E r
                \<and> wrapReader E r' = wrapReader E r)"
    unfolding same_up_to_encoding_def by blast
  with assms(2) show ?thesis by simp
qed

lemma same_up_to_encoding_Inr:
  assumes "same_up_to_encoding E d" and "client_Do E t req = Inr r"
  shows "\<exists>r'. d t req = Inr r'
                \<and> StatusCode r' = StatusCode r \<and> Status r' = Status r
                \<and> HeaderGet r' ''Retry-After'' = HeaderGet r ''Retry-After''
                \<and> robots_FromResponse E r' = robots_FromResponse E r
                \<and> wrapReader E r' = wrapReader E r"
proof -
  from assms(1) have "case client_Do E t req of
           Inl e \<Rightarrow> d t req = Inl e
         | Inr r \<Rightarrow>
             (\<exists>r'. d t req = Inr r'
                \<and> StatusCode r' = StatusCode r \<and> Status r' = Status r
                \<and> HeaderGet r' ''Retry-After'' = HeaderGet r ''Retry-After''
                \<and> robots_FromResponse E r' = robots_FromResponse E r
                \<and> wrapReader E r' = wrapReader E r)"
    unfolding same_up_to_encoding_def by blast
  with assms(2) show ?thesis by simp
qed

lemma getRobots_env:
  assumes "same_up_to_encoding E d"
  shows "getRobots (E\<lparr>client_Do := d\<rparr>) cfg base s = getRobots E cfg base s"
proof (cases "cache s (robots_key base)")
  case (Some rules)
  then show ?thesis by (simp add: getRobots_def)
next
  case None
  let ?u = "ResolveReference E base (zero_url\<lparr>Path := ''/robots.txt''\<rparr>)"
  show ?thesis
  proof (cases "newRequest E cfg ?u")
    case (Inl e)
    with None show ?thesis by (simp add: getRobots_def newRequest_env)
  next
    case (Inr req)
    show ?thesis
    proof (cases "client_Do E (clock s) req")
      case (Inl e)
      from same_up_to_encoding_Inl[OF assms Inl] None Inr Inl show ?thesis
        by (simp add: getRobots_def newRequest_env)
    next
      case (Inr r)
      from same_up_to_encoding_Inr[OF assms Inr] obtain r' where r': "d (clock s) req = Inr r'"
        "StatusCode r' = StatusCode r" "robots_FromResponse E r' = robots_FromResponse E r"
        by blast
      with None \<open>newRequest E cfg ?u = Inr req\<close> Inr show ?thesis
        by (simp add: getRobots_def newRequest_env robots_sitemaps_env Let_def cong: case_congs)
    qed
  qed
qed

lemma allowedByRobots_env:
  assumes "same_up_to_encoding E d"
  shows "allowedByRobots (E\<lparr>client_Do := d\<rparr>) cfg l s = allowedByRobots E cfg l s"
  by (simp add: allowedByRobots_def getRobots_env[OF assms] Let_def cong: case_congs)

lemma fetch_try_env:
  assumes "same_up_to_encoding E d"
  shows "fetch_try (E\<lparr>client_Do := d\<rparr>) cfg l am a s = fetch_try E cfg l am a s"
proof (cases "newRequest E cfg l")
  case (Inl e)
  then show ?thesis by (simp add: fetch_try_def newRequest_env)
next
  case (Inr req)
  show ?thesis
  proof (cases "client_Do E (clock s) req")
    case (Inl e)
    from same_up_to_encoding_Inl[OF assms Inl] Inr Inl show ?thesis
      by (simp add: fetch_try_def newRequest_env)
  next
    case (Inr r)
    from same_up_to_encoding_Inr[OF assms Inr] obtain r' where r': "d (clock s) req = Inr r'"
      "StatusCode r' = StatusCode r" "Status r' = Status r"
      "HeaderGet r' ''Retry-After'' = HeaderGet r ''Retry-After''"
      "wrapReader E r' = wrapReader E r"
      by blast
    have ra: "retryAfterDelay E now (Some r') = retryAfterDelay E now (Some r)" for now
      using r'(4) by (simp add: retryAfterDelay_def)
    from \<open>newRequest E cfg l = Inr req\<close> Inr r' ra show ?thesis
      by (simp add: fetch_try_def newRequest_env wrapReader_env retryAfterDelay_env
                    sleepWithContext_env Let_def cong: case_congs)
  qed
qed

lemma fetch_attempts_env:
  assumes "same_up_to_encoding E d"
  shows "fetch_attempts (E\<lparr>client_Do := d\<rparr>) cfg l am a s = fetch_attempts E cfg l am a s"
proof (induction "Suc maxRetryAttempts - a" arbitrary: a s)
  case 0
  then have "\<not> a \<le> maxRetryAttempts" by simp
  then show ?case
    by (simp add: fetch_attempts.simps[of _ cfg l am a])
next
  case (Suc n)
  then have le: "a \<le> maxRetryAttempts" by simp
  from Suc.hyps(2) have n: "n = Suc maxRetryAttempts - Suc a" by simp
  show ?case
    using le Suc.hyps(1)[OF n]
    by (simp add: fetch_attempts.simps[of _ cfg l am a] fetch_try_env[OF assms]
             cong: case_congs)
qed

lemma yield_item_env:
  "yield_item (E\<lparr>client_Do := d\<rparr>) cfg y cur entry l s = yield_item E cfg y cur entry l s"
  by (simp add: yield_item_def shouldInclude_def parseTimeValue_def parsePriority_def
                try_layouts_env Let_def cong: case_congs)

lemma onURL_env:
  assumes "same_up_to_encoding E d"
  shows "onURL (E\<lparr>client_Do := d\<rparr>) cfg y cur = onURL E cfg y cur"
  by (intro ext)
     (simp add: onURL_def resolveLocation_env allowedByRobots_env[OF assms] yield_item_env
           cong: case_congs)

lemma onSitemap_env: "onSitemap (E\<lparr>client_Do := d\<rparr>) cur = onSitemap E cur"
  by (intro ext) (simp add: onSitemap_def resolveLocation_env cong: case_congs)

lemma parse_steps_env:
  "parse_steps (E\<lparr>client_Do := d\<rparr>) onU onS fin steps s = parse_steps E onU onS fin steps s"
  by (induction steps arbitrary: s onU onS) (simp_all cong: case_congs)

lemma fetch_and_parse_env:
  assumes "same_up_to_encoding E d"
  shows "fetch_and_parse (E\<lparr>client_Do := d\<rparr>) cfg y cur s = fetch_and_parse E cfg y cur s"
  by (simp add: fetch_and_parse_def fetchSitemap_def fetch_attempts_env[OF assms]
                parseSitemap_def parse_steps_env onURL_env[OF assms] onSitemap_env
           cong: case_congs)

lemma process_task_env:
  assumes "same_up_to_encoding E d"
  shows "process_task (E\<lparr>client_Do := d\<rparr>) cfg y cur s = process_task E cfg y cur s"
  by (simp add: process_task_def canonicalURLKey_def allowedByRobots_env[OF assms]
                fetch_and_parse_env[OF assms] Let_def cong: case_congs)

lemma walk_loop_env:
  assumes "same_up_to_encoding E d"
  shows "walk_loop fuel (E\<lparr>client_Do := d\<rparr>) cfg y s = walk_loop fuel E cfg y s"
proof (induction fuel arbitrary: s)
  case 0
  show ?case by (simp cong: case_congs)
next
  case (Suc k)
  show ?case
    by (simp add: process_task_env[OF assms] Suc.IH cong: case_congs)
qed

lemma Walk_env:
  assumes "same_up_to_encoding E d"
  shows "Walk (E\<lparr>client_Do := d\<rparr>) cfg w yo fuel = Walk E cfg w yo fuel"
  by (simp add: Walk_def normalizeInputURL_def seed_robots_def getRobots_env[OF assms]
                initialSitemaps_def defaultSitemaps_def walk_loop_env[OF assms] Let_def
           cong: case_congs)

lemma ex_wrap_gz:
  "wrapReader example_env (ok_response keep_skip_gz) = Inr (keep_skip_doc, None)"
  by (simp add: wrapReader_def Peek_def ok_response_def example_env_def ex_gzip_NewReader_def
                keep_skip_gz_def)

lemma ex_wrap_plain:
  "wrapReader example_env (ok_response keep_skip_doc) = Inr (keep_skip_doc, None)"
  by (simp add: wrapReader_def Peek_def ok_response_def keep_skip_doc_def bytes_of_def)

lemma ex_robots_same:
  "robots_FromResponse example_env (ok_response keep_skip_gz)
     = robots_FromResponse example_env (ok_response keep_skip_doc)"
  by (simp add: example_env_def ex_robots_FromResponse_def ok_response_def keep_skip_gz_def
                keep_skip_doc_def robots_body_def bytes_of_def)

lemma ex_same_up_to_encoding: "same_up_to_encoding example_env gz_client_Do"
  unfolding same_up_to_encoding_def
proof (intro allI)
  fix t req
  show "case client_Do example_env t req of
          Inl e \<Rightarrow> gz_client_Do t req = Inl e
        | Inr r \<Rightarrow>
            (\<exists>r'. gz_client_Do t req = Inr r'
               \<and> StatusCode r' = StatusCode r \<and> Status r' = Status r
               \<and> HeaderGet r' ''Retry-After'' = HeaderGet r ''Retry-After''
               \<and> robots_FromResponse example_env r' = robots_FromResponse example_env r
               \<and> wrapReader example_env r' = wrapReader example_env r)"
  proof (cases "req_url req = ''https://example.com/sitemap.xml''")
    case True
    have c: "client_Do example_env t req = Inr (ok_response keep_skip_doc)"
      using True by (simp add: example_env_def ex_client_Do_def)
    have g: "gz_client_Do t req = Inr (ok_response keep_skip_gz)"
      using True by (simp add: gz_client_Do_def)
    show ?thesis
      using ex_wrap_gz ex_wrap_plain ex_robots_same
      by (simp add: c g) (simp add: ok_response_def)
  next
    case False
    then have g: "gz_client_Do t req = ex_client_Do t req" by (simp add: gz_client_Do_def)
    have c: "client_Do example_env t req = ex_client_Do t req" by (simp add: example_env_def)
    show ?thesis by (cases "ex_client_Do t req") (simp_all add: g c)
  qed
qed

lemma ex_walk_plain:
  "map (\<lambda>it. Path (Loc it)) (yields (snd (Walk example_env example_opts
      (Some (https_url ''example.com'' ''/sitemap.xml'')) (Some yield_ok) (Suc 0))))
   = [''/keep'', ''/skip'']"
  by (simp add: run_defs)

text \<open>
  Claim C6. \<open>wrapReader\<close> decides by the first two bytes of the body alone: when they
  are \<open>0x1f 0x8b\<close> the stream handed on is what the gzip reader makes of the body,
  otherwise it is the body itself, every byte of it, the two peeked ones included.
  Nothing else of the response is looked at. Hence a compressed body and the plain
  body it decompresses to are handed on as the same stream, and a site whose answers
  differ from another's only in this encoding gives the same traversal: the same
  result, the same items in the same order, the same requests.
\<close>

theorem gzip_transparent:
  "(gzip_magic (fst (Body resp))
      \<longrightarrow> wrapReader E resp = (case gzip_NewReader E (Body resp) of
                                 Inl e \<Rightarrow> Inl (ExtErr e) | Inr gz \<Rightarrow> Inr gz))
   \<and> (\<not> gzip_magic (fst (Body resp)) \<longrightarrow> wrapReader E resp = Inr (Body resp))
   \<and> (Body resp' = Body resp \<longrightarrow> wrapReader E resp' = wrapReader E resp)
   \<and> (gzip_magic (fst (Body rz)) \<and> gzip_NewReader E (Body rz) = Inr (Body rp)
         \<and> \<not> gzip_magic (fst (Body rp))
       \<longrightarrow> wrapReader E rz = wrapReader E rp)
   \<and> (same_up_to_encoding E d
       \<longrightarrow> Walk (E\<lparr>client_Do := d\<rparr>) cfg w yo fuel = Walk E cfg w yo fuel)"
proof -
  have a: "gzip_magic (fst (Body rz)) \<and> gzip_NewReader E (Body rz) = Inr (Body rp)
         \<and> \<not> gzip_magic (fst (Body rp))
       \<longrightarrow> wrapReader E rz = wrapReader E rp"
    using wrapReader_magic[of rz E] wrapReader_plain[of rp E] by auto
  from a wrapReader_magic[of resp E] wrapReader_plain[of resp E]
    wrapReader_body_only[of resp' resp E] Walk_env[of E d cfg w yo fuel]
  show ?thesis by blast
qed

theorem gzip_transparent_witness:
  "gzip_magic keep_skip_gz \<and> \<not> gzip_magic keep_skip_doc
   \<and> wrapReader example_env (ok_response keep_skip_gz)
       = wrapReader example_env (ok_response keep_skip_doc)
   \<and> same_up_to_encoding example_env gz_client_Do
   \<and> map (\<lambda>it. Path (Loc it))
        (yields (snd (Walk (example_env\<lparr>client_Do := gz_client_Do\<rparr>) example_opts
           (Some (https_url ''example.com'' ''/sitemap.xml'')) (Some yield_ok) (Suc 0))))
       = [''/keep'', ''/skip'']"
proof -
  have m: "gzip_magic keep_skip_gz" by (simp add: gzip_magic_def keep_skip_gz_def)
  have n: "\<not> gzip_magic keep_skip_doc"
    by (simp add: gzip_magic_def keep_skip_doc_def bytes_of_def)
  have g: "gzip_NewReader example_env (Body (ok_response keep_skip_gz))
             = Inr (Body (ok_response keep_skip_doc))"
    by (simp add: example_env_def ex_gzip_NewReader_def ok_response_def)
  note inst = gzip_transparent[of "ok_response keep_skip_gz" example_env
                "ok_response keep_skip_gz"
                "ok_response keep_skip_gz" "ok_response keep_skip_doc" gz_client_Do example_opts
                "Some (https_url ''example.com'' ''/sitemap.xml'')" "Some yield_ok" "Suc 0"]
  have b: "fst (Body (ok_response keep_skip_gz)) = keep_skip_gz"
    "fst (Body (ok_response keep_skip_doc)) = keep_skip_doc"
    by (simp_all add: ok_response_def)
  have w: "wrapReader example_env (ok_response keep_skip_gz)
             = wrapReader example_env (ok_response keep_skip_doc)"
    by (rule inst[THEN conjunct2, THEN conjunct2, THEN conjunct2, THEN conjunct1, rule_format])
       (simp add: b m n g)
  have e: "Walk (example_env\<lparr>client_Do := gz_client_Do\<rparr>) example_opts
             (Some (https_url ''example.com'' ''/sitemap.xml'')) (Some yield_ok) (Suc 0)
           = Walk example_env example_opts
               (Some (https_url ''example.com'' ''/sitemap.xml'')) (Some yield_ok) (Suc 0)"
    by (rule inst[THEN conjunct2, THEN conjunct2, THEN conjunct2, THEN conjunct2, rule_format])
       (rule ex_same_up_to_encoding)
  from m n w e ex_same_up_to_encoding ex_walk_plain show ?thesis by simp
qed

lemma retry_delay_bounds: "0 < retry_delay E now resp \<and> retry_delay E now resp \<le> maxRetryDelay"
  by (simp add: retry_delay_def Let_def defaultRetryDelay_def maxRetryDelay_def time_Second_def)

lemma fetch_try_429:
  assumes "newRequest E cfg l = Inr req"
    and "client_Do E (clock s) req = Inr resp" and "StatusCode resp = 429"
    and "\<forall>t d. sleep_interrupted E t d = None"
  shows "fetch_try E cfg l am a s =
           (if a = maxRetryAttempts
            then (Some (Inl (ErrHTTPStatus l 429 (Status resp))),
                  s\<lparr>clock := Suc (clock s), requests := requests s @ [req]\<rparr>)
            else (None, s\<lparr>clock := Suc (Suc (clock s)), requests := requests s @ [req],
                           sleeps := sleeps s @ [retry_delay E (time_Now E (Suc (clock s))) resp]\<rparr>))"
proof -
  have p: "\<not> retry_delay E (time_Now E (Suc (clock s))) resp \<le> 0"
    using retry_delay_bounds[of E "time_Now E (Suc (clock s))" resp] by simp
  show ?thesis
    using assms p
    by (auto simp add: fetch_try_def sleepWithContext_def retry_delay_def Let_def
          split: if_splits)
qed

lemma fetch_attempts_429:
  assumes req: "newRequest E cfg l = Inr req"
    and busy: "\<forall>t. \<exists>resp. client_Do E t req = Inr resp \<and> StatusCode resp = 429"
    and awake: "\<forall>t d. sleep_interrupted E t d = None"
  shows "a \<le> maxRetryAttempts \<Longrightarrow>
         \<exists>st s' ds. fetch_attempts E cfg l am a s = (Inl (ErrHTTPStatus l 429 st), s')
           \<and> requests s' = requests s @ replicate (Suc maxRetryAttempts - a) req
           \<and> sleeps s' = sleeps s @ ds \<and> length ds = maxRetryAttempts - a
           \<and> (\<forall>d\<in>set ds. 0 < d \<and> d \<le> maxRetryDelay)"
proof (induction "maxRetryAttempts - a" arbitrary: a s)
  case 0
  then have a: "a = maxRetryAttempts" by simp
  from busy obtain r where r: "client_Do E (clock s) req = Inr r" "StatusCode r = 429"
    by blast
  have "fetch_attempts E cfg l am a s =
          (Inl (ErrHTTPStatus l 429 (Status r)),
           s\<lparr>clock := Suc (clock s), requests := requests s @ [req]\<rparr>)"
    using fetch_try_429[OF req r awake, of am a] a
    by (subst fetch_attempts.simps) simp
  then show ?case using a by simp
next
  case (Suc k)
  then have a: "a \<noteq> maxRetryAttempts" "a \<le> maxRetryAttempts" by simp_all
  from busy obtain r where r: "client_Do E (clock s) req = Inr r" "StatusCode r = 429"
    by blast
  let ?d = "retry_delay E (time_Now E (Suc (clock s))) r"
  let ?s1 = "s\<lparr>clock := Suc (Suc (clock s)), requests := requests s @ [req],
                sleeps := sleeps s @ [?d]\<rparr>"
  have step: "fetch_attempts E cfg l am a s = fetch_attempts E cfg l am (Suc a) ?s1"
    using fetch_try_429[OF req r awake, of am a] a
    by (subst fetch_attempts.simps) simp
  have k: "k = maxRetryAttempts - Suc a" "Suc a \<le> maxRetryAttempts"
    using Suc.hyps(2) a by simp_all
  from Suc.hyps(1)[OF k, of ?s1] obtain st s' ds where
    f: "fetch_attempts E cfg l am (Suc a) ?s1 = (Inl (ErrHTTPStatus l 429 st), s')"
    and rq: "requests s' = requests ?s1 @ replicate (Suc maxRetryAttempts - Suc a) req"
    and sl: "sleeps s' = sleeps ?s1 @ ds"
    and ln: "length ds = maxRetryAttempts - Suc a"
    and bd: "\<forall>d\<in>set ds. 0 < d \<and> d \<le> maxRetryDelay"
    by blast
  have rq': "requests s' = requests s @ replicate (Suc maxRetryAttempts - a) req"
  proof -
    have "Suc maxRetryAttempts - a = Suc (Suc maxRetryAttempts - Suc a)" using a by simp
    then show ?thesis using rq by (simp add: replicate_app_Cons_same)
  qed
  have sl': "sleeps s' = sleeps s @ (?d # ds)" using sl by simp
  have ln': "length (?d # ds) = maxRetryAttempts - a" using ln a by simp
  have bd': "\<forall>d\<in>set (?d # ds). 0 < d \<and> d \<le> maxRetryDelay"
    using bd retry_delay_bounds[of E "time_Now E (Suc (clock s))" r] by simp
  have "fetch_attempts E cfg l am a s = (Inl (ErrHTTPStatus l 429 st), s')"
    using step f by simp
  then show ?case using rq' sl' ln' bd' by (intro exI conjI)
qed

lemma fetch_429_exhausted:
  assumes req: "newRequest E cfg l = Inr req"
    and busy: "\<forall>t. \<exists>resp. client_Do E t req = Inr resp \<and> StatusCode resp = 429"
    and awake: "\<forall>t d. sleep_interrupted E t d = None"
  shows "\<exists>st s' ds. fetchSitemap E cfg l am s = (Inl (ErrHTTPStatus l 429 st), s')
           \<and> requests s' = requests s @ [req, req, req, req]
           \<and> sleeps s' = sleeps s @ ds \<and> length ds = 3
           \<and> (\<forall>d\<in>set ds. 0 < d \<and> d \<le> maxRetryDelay)"
  using fetch_attempts_429[OF req busy awake, of 0 am "s\<lparr>fetched := fetched s @ [l]\<rparr>"]
  by (simp add: fetchSitemap_def maxRetryAttempts_def numeral_eq_Suc)

lemma ex_atoi: "Atoi ''18446744074'' = Some 18446744074"
  by (simp add: Atoi_def digits_val_def is_digit_def)

lemma ex_retry_after:
  "retryAfterDelay example_env now (Some busy_response) = 290448384"
  by (simp add: retryAfterDelay_def busy_response_def TrimSpace_def space_runes_def ex_atoi
                mul_duration_def time_Second_def)

text \<open>
  Claim C3, at a response the code mishandles. A server that always answers 429 with
  \<open>Retry-After: 18446744074\<close> (a positive number of seconds, far above the ceiling of
  30 seconds) is tried four times and the fetch fails with the status error for 429,
  as claimed; but the product of the seconds and \<open>time.Second\<close> wraps around at 64
  bits, and each of the three sleeps lasts 290448384 nanoseconds, neither the ceiling
  nor the default.
\<close>

theorem retry_after_overflow:
  "Atoi ''18446744074'' = Some 18446744074
   \<and> retryAfterDelay example_env 0 (Some busy_response) = 290448384
   \<and> maxRetryDelay = 30000000000 \<and> defaultRetryDelay = 5000000000
   \<and> fst (fetchSitemap example_env example_opts (https_url ''busy.example'' ''/sitemap.xml'')
            False init_state)
       = Inl (ErrHTTPStatus (https_url ''busy.example'' ''/sitemap.xml'') 429
                ''429 Too Many Requests'')
   \<and> map req_url (requests (snd (fetchSitemap example_env example_opts
          (https_url ''busy.example'' ''/sitemap.xml'') False init_state)))
       = [''https://busy.example/sitemap.xml'', ''https://busy.example/sitemap.xml'',
          ''https://busy.example/sitemap.xml'', ''https://busy.example/sitemap.xml'']
   \<and> sleeps (snd (fetchSitemap example_env example_opts
          (https_url ''busy.example'' ''/sitemap.xml'') False init_state))
       = [290448384, 290448384, 290448384]"
proof -
  let ?l = "https_url ''busy.example'' ''/sitemap.xml''"
  let ?req = "\<lparr>req_url = ''https://busy.example/sitemap.xml'',
               req_user_agent = defaultUserAgent, req_timeout = None\<rparr>"
  have req: "newRequest example_env example_opts ?l = Inr ?req"
    by (simp add: newRequest_def example_defs)
  have busy: "client_Do example_env t ?req = Inr busy_response" for t
    by (simp add: example_env_def ex_client_Do_def busy_response_def)
  have st: "StatusCode busy_response = 429" "Status busy_response = ''429 Too Many Requests''"
    by (simp_all add: busy_response_def)
  have awake: "\<forall>t d. sleep_interrupted example_env t d = None" by (simp add: example_env_def)
  have d: "retry_delay example_env now busy_response = 290448384" for now
    by (simp add: retry_delay_def ex_retry_after defaultRetryDelay_def maxRetryDelay_def
                  time_Second_def)
  have t: "fetch_try example_env example_opts ?l False a s =
           (if a = maxRetryAttempts
            then (Some (Inl (ErrHTTPStatus ?l 429 ''429 Too Many Requests'')),
                  s\<lparr>clock := Suc (clock s), requests := requests s @ [?req]\<rparr>)
            else (None, s\<lparr>clock := Suc (Suc (clock s)), requests := requests s @ [?req],
                           sleeps := sleeps s @ [290448384]\<rparr>))" for a s
    using fetch_try_429[OF req busy st(1) awake, of False a s] by (simp add: d st(2))
  have f: "fetchSitemap example_env example_opts ?l False init_state =
             (Inl (ErrHTTPStatus ?l 429 ''429 Too Many Requests''),
              init_state\<lparr>fetched := [?l], clock := 7, requests := [?req, ?req, ?req, ?req],
                         sleeps := [290448384, 290448384, 290448384]\<rparr>)"
    unfolding fetchSitemap_def
    by (simp add: fetch_attempts_unfold maxRetryAttempts_def t init_state_def)
  show ?thesis
    by (simp add: f ex_atoi ex_retry_after maxRetryDelay_def defaultRetryDelay_def time_Second_def)
qed

end
